theory Spec2Isabelle
  imports Complex_Main "HOL-Library.Word"
begin

unbundle bit_operations_syntax

section \<open>Errors\<close>

text \<open>
  The exceptions the modelled Python code can raise. \<open>NotBound\<close> is the
  \<^verbatim>\<open>Exception('Modbus TCP server not bound')\<close> of \<^verbatim>\<open>TCPServer.get_request\<close>;
  \<open>StructError\<close> is \<^verbatim>\<open>struct.error\<close>.
\<close>

datatype py_error = IndexError | AttributeError | KeyError | StructError | NotBound | OtherError

section \<open>The hardware abstraction layer (iriv\_ioc\_hal.py)\<close>

text \<open>
  Module globals of the HAL that the counter functions touch. A counter object
  (\<^verbatim>\<open>countio.Counter\<close>) is represented by its current \<^verbatim>\<open>count\<close>; \<open>None\<close> is the
  Python \<^verbatim>\<open>None\<close> of a disabled counter. A digital input object \<^verbatim>\<open>dinN\<close> is
  represented by whether it currently holds its pin (\<open>False\<close> after \<^verbatim>\<open>deinit()\<close>).
  The digital outputs hold the value last written to them.
\<close>

record hal =
  count1 :: "int option"
  count3 :: "int option"
  count5 :: "int option"
  count7 :: "int option"
  count9 :: "int option"
  din1 :: bool
  din3 :: bool
  din5 :: bool
  din7 :: bool
  din9 :: bool

text \<open>The module state right after import: all counters \<^verbatim>\<open>None\<close>, all inputs initialised.\<close>

definition hal_init :: hal where
  "hal_init = \<lparr>count1 = None, count3 = None, count5 = None, count7 = None, count9 = None,
               din1 = True, din3 = True, din5 = True, din7 = True, din9 = True\<rparr>"

text \<open>
  \<^verbatim>\<open>en_counter(channel)\<close>: the returned pair is the Python return value and the
  module state afterwards. A new \<^verbatim>\<open>countio.Counter\<close> starts counting at 0.
\<close>

definition en_counter :: "int \<Rightarrow> hal \<Rightarrow> bool \<times> hal" where
  "en_counter channel h =
    (if channel = 1 \<and> count1 h = None then (True, h\<lparr>din1 := False, count1 := Some 0\<rparr>)
     else if channel = 3 \<and> count3 h = None then (True, h\<lparr>din3 := False, count3 := Some 0\<rparr>)
     else if channel = 5 \<and> count5 h = None then (True, h\<lparr>din5 := False, count5 := Some 0\<rparr>)
     else if channel = 7 \<and> count7 h = None then (True, h\<lparr>din7 := False, count7 := Some 0\<rparr>)
     else if channel = 9 \<and> count9 h = None then (True, h\<lparr>din9 := False, count9 := Some 0\<rparr>)
     else (False, h))"

text \<open>\<^verbatim>\<open>dis_counter(channel)\<close>.\<close>

definition dis_counter :: "int \<Rightarrow> hal \<Rightarrow> bool \<times> hal" where
  "dis_counter channel h =
    (if channel = 1 \<and> count1 h \<noteq> None then (True, h\<lparr>count1 := None, din1 := True\<rparr>)
     else if channel = 3 \<and> count3 h \<noteq> None then (True, h\<lparr>count3 := None, din3 := True\<rparr>)
     else if channel = 5 \<and> count5 h \<noteq> None then (True, h\<lparr>count5 := None, din5 := True\<rparr>)
     else if channel = 7 \<and> count7 h \<noteq> None then (True, h\<lparr>count7 := None, din7 := True\<rparr>)
     else if channel = 9 \<and> count9 h \<noteq> None then (True, h\<lparr>count9 := None, din9 := True\<rparr>)
     else (False, h))"

text \<open>
  The counter object of a channel, for stating properties per channel
  (the source has one global per channel and no such accessor).
\<close>

definition counter_of :: "int \<Rightarrow> hal \<Rightarrow> int option" where
  "counter_of channel h =
    (if channel = 1 then count1 h else if channel = 3 then count3 h
     else if channel = 5 then count5 h else if channel = 7 then count7 h
     else if channel = 9 then count9 h else None)"

definition counter_channels :: "int list" where
  "counter_channels = [1, 3, 5, 7, 9]"

section \<open>The register table\<close>

text \<open>
  A register value is what Python stores under the key \<^verbatim>\<open>"val"\<close>: one integer,
  or a list of integers for an entry of several words.
\<close>

datatype reg_val = Single int | Multi "int list"

record entry =
  len :: nat
  val :: reg_val

text \<open>
  The three register spaces that \<^verbatim>\<open>register_definitions\<close> fills, each a dictionary
  from the entry's base address to the entry.
\<close>

record regs =
  COILS :: "nat \<rightharpoonup> entry"
  ISTS :: "nat \<rightharpoonup> entry"
  IREGS :: "nat \<rightharpoonup> entry"

text \<open>
  Modelled from the spec: the accessors \<^verbatim>\<open>get_coil\<close>, \<^verbatim>\<open>set_coil\<close> and
  \<^verbatim>\<open>set_ireg\<close> of the \<^verbatim>\<open>Modbus\<close> class (umodbus/modbus.py), which the hooks call on
  \<^verbatim>\<open>client\<close>. An entry holds a current value under a base address that is
  unique within its space; a lookup resolves to exactly one entry or fails.
  A failed lookup is the \<^verbatim>\<open>KeyError\<close> of the dictionary.
\<close>

definition get_coil :: "regs \<Rightarrow> nat \<Rightarrow> py_error + reg_val" where
  "get_coil t address =
    (case COILS t address of None \<Rightarrow> Inl KeyError | Some e \<Rightarrow> Inr (val e))"

definition set_coil :: "regs \<Rightarrow> nat \<Rightarrow> reg_val \<Rightarrow> py_error + regs" where
  "set_coil t address v =
    (case COILS t address of
       None \<Rightarrow> Inl KeyError
     | Some e \<Rightarrow> Inr (t\<lparr>COILS := (COILS t)(address \<mapsto> e\<lparr>val := v\<rparr>)\<rparr>))"

definition set_ireg :: "regs \<Rightarrow> nat \<Rightarrow> reg_val \<Rightarrow> py_error + regs" where
  "set_ireg t address v =
    (case IREGS t address of
       None \<Rightarrow> Inl KeyError
     | Some e \<Rightarrow> Inr (t\<lparr>IREGS := (IREGS t)(address \<mapsto> e\<lparr>val := v\<rparr>)\<rparr>))"

section \<open>The register map and its hooks (iriv\_ioc\_modbus.py)\<close>

definition DO0_ADD :: nat where "DO0_ADD = 0x0100"
definition DO1_ADD :: nat where "DO1_ADD = 0x0101"
definition DO2_ADD :: nat where "DO2_ADD = 0x0102"
definition DO3_ADD :: nat where "DO3_ADD = 0x0103"

definition COUNT1_EN_ADD :: nat where "COUNT1_EN_ADD = 0x0300"
definition COUNT3_EN_ADD :: nat where "COUNT3_EN_ADD = 0x0301"
definition COUNT5_EN_ADD :: nat where "COUNT5_EN_ADD = 0x0302"
definition COUNT7_EN_ADD :: nat where "COUNT7_EN_ADD = 0x0303"
definition COUNT9_EN_ADD :: nat where "COUNT9_EN_ADD = 0x0304"

definition COUNT1_RST_ADD :: nat where "COUNT1_RST_ADD = 0x0310"
definition COUNT3_RST_ADD :: nat where "COUNT3_RST_ADD = 0x0311"
definition COUNT5_RST_ADD :: nat where "COUNT5_RST_ADD = 0x0312"
definition COUNT7_RST_ADD :: nat where "COUNT7_RST_ADD = 0x0313"
definition COUNT9_RST_ADD :: nat where "COUNT9_RST_ADD = 0x0314"

definition DI0_ADD :: nat where "DI0_ADD = 0x0000"
definition DI1_ADD :: nat where "DI1_ADD = 0x0001"
definition DI2_ADD :: nat where "DI2_ADD = 0x0002"
definition DI3_ADD :: nat where "DI3_ADD = 0x0003"
definition DI4_ADD :: nat where "DI4_ADD = 0x0004"
definition DI5_ADD :: nat where "DI5_ADD = 0x0005"
definition DI6_ADD :: nat where "DI6_ADD = 0x0006"
definition DI7_ADD :: nat where "DI7_ADD = 0x0007"
definition DI8_ADD :: nat where "DI8_ADD = 0x0008"
definition DI9_ADD :: nat where "DI9_ADD = 0x0009"
definition DI10_ADD :: nat where "DI10_ADD = 0x000a"

definition ANV0_ADD :: nat where "ANV0_ADD = 0x0200"
definition ANV1_ADD :: nat where "ANV1_ADD = 0x0201"
definition ANA0_ADD :: nat where "ANA0_ADD = 0x0210"
definition ANA1_ADD :: nat where "ANA1_ADD = 0x0211"

definition COUNT1_H_ADD :: nat where "COUNT1_H_ADD = 0x0400"
definition COUNT3_H_ADD :: nat where "COUNT3_H_ADD = 0x0402"
definition COUNT5_H_ADD :: nat where "COUNT5_H_ADD = 0x0404"
definition COUNT7_H_ADD :: nat where "COUNT7_H_ADD = 0x0406"
definition COUNT9_H_ADD :: nat where "COUNT9_H_ADD = 0x0408"

definition MODEL1_ADD :: nat where "MODEL1_ADD = 0x0F00"
definition VERSION_MAJOR_ADD :: nat where "VERSION_MAJOR_ADD = 0x0F10"

definition MODEL1 :: int where "MODEL1 = 0x494F"
definition MODEL2 :: int where "MODEL2 = 0x4300"
definition VERSION_MAJOR :: int where "VERSION_MAJOR = 2"
definition VERSION_MINOR :: int where "VERSION_MINOR = 0"
definition VERSION_PATCH :: int where "VERSION_PATCH = 0"

text \<open>
  The values of \<^verbatim>\<open>register_definitions\<close> (\<^verbatim>\<open>"register"\<close>, \<^verbatim>\<open>"len"\<close>, \<^verbatim>\<open>"val"\<close>);
  the hooks registered with the entries are given with the hooks below.
\<close>

definition register_definitions :: regs where
  "register_definitions =
    \<lparr>COILS = map_of
       [(DO0_ADD, \<lparr>len = 1, val = Single 0\<rparr>), (DO1_ADD, \<lparr>len = 1, val = Single 0\<rparr>),
        (DO2_ADD, \<lparr>len = 1, val = Single 0\<rparr>), (DO3_ADD, \<lparr>len = 1, val = Single 0\<rparr>),
        (COUNT1_EN_ADD, \<lparr>len = 1, val = Single 0\<rparr>), (COUNT3_EN_ADD, \<lparr>len = 1, val = Single 0\<rparr>),
        (COUNT5_EN_ADD, \<lparr>len = 1, val = Single 0\<rparr>), (COUNT7_EN_ADD, \<lparr>len = 1, val = Single 0\<rparr>),
        (COUNT9_EN_ADD, \<lparr>len = 1, val = Single 0\<rparr>),
        (COUNT1_RST_ADD, \<lparr>len = 1, val = Single 0\<rparr>), (COUNT3_RST_ADD, \<lparr>len = 1, val = Single 0\<rparr>),
        (COUNT5_RST_ADD, \<lparr>len = 1, val = Single 0\<rparr>), (COUNT7_RST_ADD, \<lparr>len = 1, val = Single 0\<rparr>),
        (COUNT9_RST_ADD, \<lparr>len = 1, val = Single 0\<rparr>)],
     ISTS = map_of
       [(DI0_ADD, \<lparr>len = 1, val = Single 0\<rparr>), (DI1_ADD, \<lparr>len = 1, val = Single 0\<rparr>),
        (DI2_ADD, \<lparr>len = 1, val = Single 0\<rparr>), (DI3_ADD, \<lparr>len = 1, val = Single 0\<rparr>),
        (DI4_ADD, \<lparr>len = 1, val = Single 0\<rparr>), (DI5_ADD, \<lparr>len = 1, val = Single 0\<rparr>),
        (DI6_ADD, \<lparr>len = 1, val = Single 0\<rparr>), (DI7_ADD, \<lparr>len = 1, val = Single 0\<rparr>),
        (DI8_ADD, \<lparr>len = 1, val = Single 0\<rparr>), (DI9_ADD, \<lparr>len = 1, val = Single 0\<rparr>),
        (DI10_ADD, \<lparr>len = 1, val = Single 0\<rparr>)],
     IREGS = map_of
       [(ANV0_ADD, \<lparr>len = 1, val = Single 0\<rparr>), (ANV1_ADD, \<lparr>len = 1, val = Single 0\<rparr>),
        (ANA0_ADD, \<lparr>len = 1, val = Single 0\<rparr>), (ANA1_ADD, \<lparr>len = 1, val = Single 0\<rparr>),
        (COUNT1_H_ADD, \<lparr>len = 2, val = Multi [0, 0]\<rparr>), (COUNT3_H_ADD, \<lparr>len = 2, val = Multi [0, 0]\<rparr>),
        (COUNT5_H_ADD, \<lparr>len = 2, val = Multi [0, 0]\<rparr>), (COUNT7_H_ADD, \<lparr>len = 2, val = Multi [0, 0]\<rparr>),
        (COUNT9_H_ADD, \<lparr>len = 2, val = Multi [0, 0]\<rparr>),
        (MODEL1_ADD, \<lparr>len = 2, val = Multi [MODEL1, MODEL2]\<rparr>),
        (VERSION_MAJOR_ADD, \<lparr>len = 3, val = Multi [VERSION_MAJOR, VERSION_MINOR, VERSION_PATCH]\<rparr>)]\<rparr>"

text \<open>
  The state the hooks work on: the module global \<^verbatim>\<open>client\<close> (its register table) and
  the module \<^verbatim>\<open>Hal\<close>.
\<close>

record app =
  client :: regs
  Hal :: hal

definition app_init :: app where
  "app_init = \<lparr>client = register_definitions, Hal = hal_init\<rparr>"

text \<open>Sequencing of statements that may raise: the first exception ends the hook.\<close>

definition bind_err :: "py_error + 'a \<Rightarrow> ('a \<Rightarrow> py_error + 'b) \<Rightarrow> py_error + 'b" where
  "bind_err m f = (case m of Inl e \<Rightarrow> Inl e | Inr x \<Rightarrow> f x)"

text \<open>
  \<^verbatim>\<open>counter_en_set_cb\<close> repeats one block for the channels 1, 3, 5, 7 and 9:
  \<^verbatim>\<open>
  if (client.get_coil(COUNTn_EN_ADD) == 1):
      if (Hal.en_counter(n) == True):
          client.set_ireg(COUNTn_H_ADD, [0, 0])
  else:
      Hal.dis_counter(n)
  \<close>
  \<open>counter_en_block\<close> is that block, with the enable address, the channel and the
  address of the counter value as parameters.
\<close>

definition counter_en_block :: "nat \<Rightarrow> int \<Rightarrow> nat \<Rightarrow> app \<Rightarrow> py_error + app" where
  "counter_en_block en_add channel h_add s =
    bind_err (get_coil (client s) en_add) (\<lambda>v.
      if v = Single 1 then
        (case en_counter channel (Hal s) of
           (True, h') \<Rightarrow>
             bind_err (set_ireg (client s) h_add (Multi [0, 0])) (\<lambda>t'. Inr \<lparr>client = t', Hal = h'\<rparr>)
         | (False, h') \<Rightarrow> Inr (s\<lparr>Hal := h'\<rparr>))
      else Inr (s\<lparr>Hal := snd (dis_counter channel (Hal s))\<rparr>))"

definition counter_en_set_cb :: "app \<Rightarrow> py_error + app" where
  "counter_en_set_cb s0 =
    bind_err (counter_en_block COUNT1_EN_ADD 1 COUNT1_H_ADD s0) (\<lambda>s1.
    bind_err (counter_en_block COUNT3_EN_ADD 3 COUNT3_H_ADD s1) (\<lambda>s2.
    bind_err (counter_en_block COUNT5_EN_ADD 5 COUNT5_H_ADD s2) (\<lambda>s3.
    bind_err (counter_en_block COUNT7_EN_ADD 7 COUNT7_H_ADD s3) (\<lambda>s4.
    counter_en_block COUNT9_EN_ADD 9 COUNT9_H_ADD s4))))"

text \<open>
  \<^verbatim>\<open>counter_rst_set_cb\<close> repeats this block for the five channels:
  \<^verbatim>\<open>
  if (client.get_coil(COUNTn_RST_ADD) == 1):
      client.set_coil(COUNTn_RST_ADD, 0)
      Hal.countn.reset()
      client.set_ireg(COUNTn_H_ADD, [0, 0])
  \<close>
  \<open>cnt\<close> reads the global \<^verbatim>\<open>Hal.countn\<close> and \<open>reset\<close> is \<^verbatim>\<open>Hal.countn.reset()\<close>,
  which sets the count of that counter to 0; on \<^verbatim>\<open>None\<close> the attribute access
  raises \<^verbatim>\<open>AttributeError\<close>.
\<close>

definition counter_rst_block ::
  "nat \<Rightarrow> (hal \<Rightarrow> int option) \<Rightarrow> (hal \<Rightarrow> hal) \<Rightarrow> nat \<Rightarrow> app \<Rightarrow> py_error + app" where
  "counter_rst_block rst_add cnt reset h_add s =
    bind_err (get_coil (client s) rst_add) (\<lambda>v.
      if v = Single 1 then
        bind_err (set_coil (client s) rst_add (Single 0)) (\<lambda>t1.
          case cnt (Hal s) of
            None \<Rightarrow> Inl AttributeError
          | Some c \<Rightarrow>
              bind_err (set_ireg t1 h_add (Multi [0, 0])) (\<lambda>t2.
                Inr \<lparr>client = t2, Hal = reset (Hal s)\<rparr>))
      else Inr s)"

definition counter_rst_set_cb :: "app \<Rightarrow> py_error + app" where
  "counter_rst_set_cb s0 =
    bind_err (counter_rst_block COUNT1_RST_ADD count1 (\<lambda>h. h\<lparr>count1 := Some 0\<rparr>) COUNT1_H_ADD s0) (\<lambda>s1.
    bind_err (counter_rst_block COUNT3_RST_ADD count3 (\<lambda>h. h\<lparr>count3 := Some 0\<rparr>) COUNT3_H_ADD s1) (\<lambda>s2.
    bind_err (counter_rst_block COUNT5_RST_ADD count5 (\<lambda>h. h\<lparr>count5 := Some 0\<rparr>) COUNT5_H_ADD s2) (\<lambda>s3.
    bind_err (counter_rst_block COUNT7_RST_ADD count7 (\<lambda>h. h\<lparr>count7 := Some 0\<rparr>) COUNT7_H_ADD s3) (\<lambda>s4.
    counter_rst_block COUNT9_RST_ADD count9 (\<lambda>h. h\<lparr>count9 := Some 0\<rparr>) COUNT9_H_ADD s4))))"

text \<open>
  \<^verbatim>\<open>counter_get_cb\<close> repeats this block for the five channels:
  \<^verbatim>\<open>
  if (client.get_coil(COUNTn_EN_ADD) == 1):
      count = Hal.countn.count
      client.set_ireg(COUNTn_H_ADD, [count >> 8, count & 0xffff])
  \<close>
  Python's \<^verbatim>\<open>>>\<close> on an integer is \<open>drop_bit\<close> (it rounds towards minus infinity).
\<close>

definition counter_get_block ::
  "nat \<Rightarrow> (hal \<Rightarrow> int option) \<Rightarrow> nat \<Rightarrow> app \<Rightarrow> py_error + app" where
  "counter_get_block en_add cnt h_add s =
    bind_err (get_coil (client s) en_add) (\<lambda>v.
      if v = Single 1 then
        (case cnt (Hal s) of
           None \<Rightarrow> Inl AttributeError
         | Some count \<Rightarrow>
             bind_err (set_ireg (client s) h_add (Multi [drop_bit 8 count, count AND 0xffff]))
               (\<lambda>t'. Inr (s\<lparr>client := t'\<rparr>)))
      else Inr s)"

definition counter_get_cb :: "app \<Rightarrow> py_error + app" where
  "counter_get_cb s0 =
    bind_err (counter_get_block COUNT1_EN_ADD count1 COUNT1_H_ADD s0) (\<lambda>s1.
    bind_err (counter_get_block COUNT3_EN_ADD count3 COUNT3_H_ADD s1) (\<lambda>s2.
    bind_err (counter_get_block COUNT5_EN_ADD count5 COUNT5_H_ADD s2) (\<lambda>s3.
    bind_err (counter_get_block COUNT7_EN_ADD count7 COUNT7_H_ADD s3) (\<lambda>s4.
    counter_get_block COUNT9_EN_ADD count9 COUNT9_H_ADD s4))))"

text \<open>
  Per-channel addresses, for stating properties per channel (the source names each
  address separately).
\<close>

definition en_add_of :: "int \<Rightarrow> nat" where
  "en_add_of channel =
    (if channel = 1 then COUNT1_EN_ADD else if channel = 3 then COUNT3_EN_ADD
     else if channel = 5 then COUNT5_EN_ADD else if channel = 7 then COUNT7_EN_ADD
     else COUNT9_EN_ADD)"

definition rst_add_of :: "int \<Rightarrow> nat" where
  "rst_add_of channel =
    (if channel = 1 then COUNT1_RST_ADD else if channel = 3 then COUNT3_RST_ADD
     else if channel = 5 then COUNT5_RST_ADD else if channel = 7 then COUNT7_RST_ADD
     else COUNT9_RST_ADD)"

definition h_add_of :: "int \<Rightarrow> nat" where
  "h_add_of channel =
    (if channel = 1 then COUNT1_H_ADD else if channel = 3 then COUNT3_H_ADD
     else if channel = 5 then COUNT5_H_ADD else if channel = 7 then COUNT7_H_ADD
     else COUNT9_H_ADD)"

text \<open>The value stored in a coil or an input register, \<open>None\<close> where no entry is defined.\<close>

definition coil_val :: "app \<Rightarrow> nat \<Rightarrow> reg_val option" where
  "coil_val s a = map_option val (COILS (client s) a)"

definition ireg_val :: "app \<Rightarrow> nat \<Rightarrow> reg_val option" where
  "ireg_val s a = map_option val (IREGS (client s) a)"

text \<open>The declared length of an input register entry, \<open>None\<close> where no entry is defined.\<close>

definition ireg_len :: "app \<Rightarrow> nat \<Rightarrow> nat option" where
  "ireg_len s a = map_option len (IREGS (client s) a)"

text \<open>
  The register table holds the entries that \<^verbatim>\<open>register_definitions\<close> declares for the
  counters: the enable coil of every channel with length 1 and its counter value with
  length 2.
\<close>

definition counters_registered :: "app \<Rightarrow> bool" where
  "counters_registered s =
    (\<forall>c \<in> set counter_channels.
       map_option len (COILS (client s) (en_add_of c)) = Some 1
     \<and> ireg_len s (h_add_of c) = Some 2)"

text \<open>
  Two states for concrete runs: counter 1 is enabled and has counted 70000 edges; in
  the second, its reset coil has been written to 1 and its value registers hold an
  earlier reading.
\<close>

definition app_counting :: app where
  "app_counting =
    \<lparr>client = register_definitions
       \<lparr>COILS := (COILS register_definitions)(COUNT1_EN_ADD \<mapsto> \<lparr>len = 1, val = Single 1\<rparr>)\<rparr>,
     Hal = hal_init\<lparr>din1 := False, count1 := Some 70000\<rparr>\<rparr>"

definition app_resetting :: app where
  "app_resetting =
    \<lparr>client = register_definitions
       \<lparr>COILS := (COILS register_definitions)
          (COUNT1_EN_ADD \<mapsto> \<lparr>len = 1, val = Single 1\<rparr>,
           COUNT1_RST_ADD \<mapsto> \<lparr>len = 1, val = Single 1\<rparr>),
        IREGS := (IREGS register_definitions)
          (COUNT1_H_ADD \<mapsto> \<lparr>len = 2, val = Multi [273, 4464]\<rparr>)\<rparr>,
     Hal = hal_init\<lparr>din1 := False, count1 := Some 70000\<rparr>\<rparr>"

section \<open>Reading and writing through the register table\<close>

datatype modbus_exc = IllegalFunction | IllegalDataAddress | IllegalDataValue

datatype 'a reply = Response 'a | ExceptionResponse modbus_exc | HookRaised py_error

fun words_of :: "reg_val \<Rightarrow> int list" where
  "words_of (Single v) = [v]"
| "words_of (Multi vs) = vs"

text \<open>
  Modelled from the spec: the register table's \<^verbatim>\<open>write\<close> for one coil, the part of
  \<^verbatim>\<open>Modbus.process\<close> (umodbus/modbus.py) that serves WriteSingleCoil. It fails with
  IllegalDataAddress if no single entry exactly covers the address, with
  IllegalDataValue if the value exceeds one bit; on success it stores the value and
  then invokes the entry's on-write hook, if it has one.
\<close>

definition write_single_coil ::
  "(app \<Rightarrow> py_error + app) option \<Rightarrow> nat \<Rightarrow> int \<Rightarrow> app \<Rightarrow> unit reply \<times> app" where
  "write_single_coil on_set_cb address v s =
    (case COILS (client s) address of
       None \<Rightarrow> (ExceptionResponse IllegalDataAddress, s)
     | Some e \<Rightarrow>
         if len e \<noteq> 1 then (ExceptionResponse IllegalDataAddress, s)
         else if v \<noteq> 0 \<and> v \<noteq> 1 then (ExceptionResponse IllegalDataValue, s)
         else
           (let s1 = s\<lparr>client := (client s)\<lparr>COILS := (COILS (client s))(address \<mapsto> e\<lparr>val := Single v\<rparr>)\<rparr>\<rparr>
            in case on_set_cb of
                 None \<Rightarrow> (Response (), s1)
               | Some cb \<Rightarrow>
                   (case cb s1 of Inl err \<Rightarrow> (HookRaised err, s1) | Inr s2 \<Rightarrow> (Response (), s2))))"

text \<open>
  Modelled from the spec: the register table's \<^verbatim>\<open>read\<close> for input registers, the part
  of \<^verbatim>\<open>Modbus.process\<close> (umodbus/modbus.py) that serves ReadInputRegisters. It fails
  with IllegalDataAddress if no single entry exactly covers
  \<open>[address, address + count)\<close>; otherwise it invokes the entry's on-read hook, if it has
  one, and returns the latest stored value.
\<close>

definition read_input_registers ::
  "(app \<Rightarrow> py_error + app) option \<Rightarrow> nat \<Rightarrow> nat \<Rightarrow> app \<Rightarrow> int list reply \<times> app" where
  "read_input_registers on_get_cb address count s =
    (case IREGS (client s) address of
       None \<Rightarrow> (ExceptionResponse IllegalDataAddress, s)
     | Some e \<Rightarrow>
         if len e \<noteq> count then (ExceptionResponse IllegalDataAddress, s)
         else
           (case on_get_cb of
              None \<Rightarrow> (Response (words_of (val e)), s)
            | Some cb \<Rightarrow>
                (case cb s of
                   Inl err \<Rightarrow> (HookRaised err, s)
                 | Inr s1 \<Rightarrow>
                     (case IREGS (client s1) address of
                        None \<Rightarrow> (ExceptionResponse IllegalDataAddress, s1)
                      | Some e1 \<Rightarrow> (Response (words_of (val e1)), s1)))))"

section \<open>Bytes and struct\<close>

type_synonym byte = "8 word"

text \<open>
  Modelled from the spec: \<^verbatim>\<open>Const.MBAP_HDR_LENGTH\<close> (umodbus/const.py); the MBAP header
  has 7 bytes.
\<close>

definition MBAP_HDR_LENGTH :: nat where
  "MBAP_HDR_LENGTH = 7"

text \<open>An unsigned big-endian 16-bit field (the format \<^verbatim>\<open>>H\<close>).\<close>

definition be16 :: "byte \<Rightarrow> byte \<Rightarrow> int" where
  "be16 hi lo = uint hi * 256 + uint lo"

text \<open>\<^verbatim>\<open>struct.unpack('>HHH', bs)\<close>: \<^verbatim>\<open>struct.error\<close> unless \<open>bs\<close> has exactly 6 bytes.\<close>

definition unpack_HHH :: "byte list \<Rightarrow> py_error + (int \<times> int \<times> int)" where
  "unpack_HHH bs =
    (case bs of
       [a, b, c, d, e, f] \<Rightarrow> Inr (be16 a b, be16 c d, be16 e f)
     | _ \<Rightarrow> Inl StructError)"

text \<open>One \<^verbatim>\<open>H\<close> and one \<^verbatim>\<open>B\<close> field of \<^verbatim>\<open>struct.pack\<close>: out of range raises \<^verbatim>\<open>struct.error\<close>.\<close>

definition pack_H :: "int \<Rightarrow> py_error + byte list" where
  "pack_H n =
    (if 0 \<le> n \<and> n \<le> 0xffff then Inr [word_of_int (n div 256), word_of_int (n mod 256)]
     else Inl StructError)"

definition pack_B :: "int \<Rightarrow> py_error + byte list" where
  "pack_B n = (if 0 \<le> n \<and> n \<le> 0xff then Inr [word_of_int n] else Inl StructError)"

text \<open>
  \<^verbatim>\<open>struct.pack('>HHHB' + 'B' * size, tid, 0, size + 1, slave_addr, *modbus_pdu)\<close>;
  the bytes of \<open>modbus_pdu\<close> are in range for \<^verbatim>\<open>B\<close> as they are.
\<close>

definition pack_adu :: "int \<Rightarrow> int \<Rightarrow> byte list \<Rightarrow> py_error + byte list" where
  "pack_adu tid slave_addr modbus_pdu =
    bind_err (pack_H tid) (\<lambda>a.
    bind_err (pack_H 0) (\<lambda>b.
    bind_err (pack_H (int (length modbus_pdu) + 1)) (\<lambda>c.
    bind_err (pack_B slave_addr) (\<lambda>d.
    Inr (a @ b @ c @ d @ modbus_pdu)))))"

text \<open>
  Modelled from the spec: \<^verbatim>\<open>functions.exception_response\<close> (umodbus/functions.py): the
  standard exception PDU, the function code OR 0x80 and one exception-code byte.
\<close>

definition exception_response :: "byte \<Rightarrow> byte \<Rightarrow> byte list" where
  "exception_response function_code exception_code = [function_code OR 0x80, exception_code]"

section \<open>Sockets\<close>

text \<open>
  What a socket of the pool shows to \<^verbatim>\<open>TCPServer\<close>: the properties \<^verbatim>\<open>_connected\<close> and
  \<^verbatim>\<open>_socket_closed\<close> (\<open>status_raises\<close> when reading them raises), the address it is
  bound to, whether it listens, its timeout, the results of the coming \<^verbatim>\<open>recv\<close> calls
  and the byte strings sent through it so far.
\<close>

datatype recv_event = Data "byte list" | RecvOSError | RecvError

record sock =
  sock_connected :: bool
  socket_closed :: bool
  status_raises :: bool
  bound_to :: "(string option \<times> int) option"
  listening :: bool
  sock_timeout :: int
  rx :: "recv_event list"
  tx :: "byte list list"

text \<open>A socket as \<^verbatim>\<open>sockpool.socket()\<close> returns it.\<close>

definition new_sock :: sock where
  "new_sock = \<lparr>sock_connected = False, socket_closed = False, status_raises = False,
               bound_to = None, listening = False, sock_timeout = 0, rx = [], tx = []\<rparr>"

definition close :: "sock \<Rightarrow> sock" where
  "close k = k\<lparr>sock_connected := False, socket_closed := True, listening := False\<rparr>"

definition send :: "byte list \<Rightarrow> sock \<Rightarrow> sock" where
  "send adu k = k\<lparr>tx := tx k @ [adu]\<rparr>"

text \<open>
  \<^verbatim>\<open>recv(bufsize)\<close>: the next pending result; at most \<open>bufsize\<close> bytes of pending data,
  the rest stays pending. With nothing pending the call times out (\<^verbatim>\<open>OSError\<close>).
\<close>

definition recv :: "nat \<Rightarrow> sock \<Rightarrow> recv_event \<times> sock" where
  "recv bufsize k =
    (case rx k of
       [] \<Rightarrow> (RecvOSError, k)
     | Data bs # rest \<Rightarrow>
         (Data (take bufsize bs),
          k\<lparr>rx := (if length bs \<le> bufsize then rest else Data (drop bufsize bs) # rest)\<rparr>)
     | ev # rest \<Rightarrow> (ev, k\<lparr>rx := rest\<rparr>))"

section \<open>TCPServer (umodbus/tcp.py)\<close>

text \<open>
  The attributes of a \<^verbatim>\<open>TCPServer\<close>. Socket objects live in the store \<open>socks\<close> and are
  referred to by their index, since \<^verbatim>\<open>_current_sock\<close> and an element of \<^verbatim>\<open>_socklist\<close>
  may be the same object; \<open>next_sock\<close> is the index of the next object that
  \<^verbatim>\<open>sockpool.socket()\<close> creates. \<open>req_tid\<close> is \<open>None\<close> until \<^verbatim>\<open>_req_tid\<close> is first
  assigned (\<^verbatim>\<open>__init__\<close> does not set it).
\<close>

record tcp_server =
  socks :: "nat \<Rightarrow> sock"
  next_sock :: nat
  socklist :: "nat option list"
  socknum :: nat
  current_sock :: "nat option"
  local_ip :: "string option"
  local_port :: int
  is_bound :: bool
  link_timestamp :: real
  req_tid :: "int option"

datatype 'a outcome = Raises py_error | Returns 'a

text \<open>\<^verbatim>\<open>TCPServer.__init__\<close>.\<close>

definition TCPServer_init :: tcp_server where
  "TCPServer_init =
    \<lparr>socks = (\<lambda>_. new_sock), next_sock = 0, socklist = [], socknum = 0, current_sock = None,
     local_ip = None, local_port = 502, is_bound = False, link_timestamp = 0, req_tid = None\<rparr>"

definition upd_sock :: "nat \<Rightarrow> (sock \<Rightarrow> sock) \<Rightarrow> tcp_server \<Rightarrow> tcp_server" where
  "upd_sock i f s = s\<lparr>socks := (socks s)(i := f (socks s i))\<rparr>"

text \<open>
  \<^verbatim>\<open>sockpool.socket()\<close> followed by \<^verbatim>\<open>bind((self._local_ip, self._local_port))\<close> and
  \<^verbatim>\<open>listen()\<close>: the index of the new object and the store with it.
\<close>

definition listening_socket :: "tcp_server \<Rightarrow> nat \<times> tcp_server" where
  "listening_socket s =
    (next_sock s,
     s\<lparr>socks := (socks s)(next_sock s :=
            new_sock\<lparr>bound_to := Some (local_ip s, local_port s), listening := True\<rparr>),
       next_sock := Suc (next_sock s)\<rparr>)"

fun bind_loop :: "nat \<Rightarrow> tcp_server \<Rightarrow> tcp_server" where
  "bind_loop 0 s = s"
| "bind_loop (Suc n) s =
    (case listening_socket s of
       (i, s1) \<Rightarrow> bind_loop n (s1\<lparr>socklist := socklist s1 @ [Some i]\<rparr>))"

text \<open>\<^verbatim>\<open>TCPServer.bind\<close>.\<close>

definition TCPServer_bind :: "string option \<Rightarrow> int \<Rightarrow> int \<Rightarrow> tcp_server \<Rightarrow> tcp_server" where
  "TCPServer_bind ip port max_connections s =
    (let s1 = fold (\<lambda>x st. case x of None \<Rightarrow> st | Some i \<Rightarrow> upd_sock i close st) (socklist s) s;
         s2 = s1\<lparr>socklist := [], current_sock := None\<rparr>
     in if max_connections < 1 then s2
        else
          (let s3 = s2\<lparr>local_ip := ip, local_port := port\<rparr>;
               s4 = bind_loop (nat max_connections) s3
           in s4\<lparr>socknum := 0, is_bound := True\<rparr>))"

text \<open>\<^verbatim>\<open>TCPServer._send\<close>.\<close>

definition TCPServer_send :: "byte list \<Rightarrow> int \<Rightarrow> tcp_server \<Rightarrow> unit outcome \<times> tcp_server" where
  "TCPServer_send modbus_pdu slave_addr s =
    (case req_tid s of
       None \<Rightarrow> (Raises AttributeError, s)
     | Some tid \<Rightarrow>
         (case pack_adu tid slave_addr modbus_pdu of
            Inl err \<Rightarrow> (Raises err, s)
          | Inr adu \<Rightarrow>
              (case current_sock s of
                 None \<Rightarrow> (Raises AttributeError, s)
               | Some c \<Rightarrow> (Returns (), upd_sock c (send adu) s))))"

text \<open>
  \<^verbatim>\<open>TCPServer.send_response\<close>. \<^verbatim>\<open>functions.response\<close> (umodbus/functions.py) is the
  parameter \<open>response\<close>, applied to the arguments \<open>args\<close> that \<^verbatim>\<open>send_response\<close> passes
  on to it.
\<close>

definition send_response ::
  "('a \<Rightarrow> py_error + byte list) \<Rightarrow> int \<Rightarrow> 'a \<Rightarrow> tcp_server \<Rightarrow> unit outcome \<times> tcp_server" where
  "send_response response slave_addr args s =
    (case response args of
       Inl err \<Rightarrow> (Raises err, s)
     | Inr modbus_pdu \<Rightarrow> TCPServer_send modbus_pdu slave_addr s)"

text \<open>\<^verbatim>\<open>TCPServer.send_exception_response\<close>.\<close>

definition send_exception_response ::
  "int \<Rightarrow> byte \<Rightarrow> byte \<Rightarrow> tcp_server \<Rightarrow> unit outcome \<times> tcp_server" where
  "send_exception_response slave_addr function_code exception_code s =
    TCPServer_send (exception_response function_code exception_code) slave_addr s"

text \<open>
  The constructor \<^verbatim>\<open>Request(self, req_uid_and_pdu)\<close> (umodbus/common.py) is a parameter
  of \<open>get_request\<close>: it returns a request, raises \<^verbatim>\<open>ModbusException\<close> with a function
  code and an exception code, or raises something else.
\<close>

datatype 'r decoded = Decoded 'r | ModbusException byte byte | DecodeRaises py_error

text \<open>
  The end of \<^verbatim>\<open>get_request\<close>:
  \<^verbatim>\<open>
  try:
      return Request(self, req_uid_and_pdu)
  except ModbusException as e:
      self.send_exception_response(req[0], e.function_code, e.exception_code)
      return None
  \<close>
  \<open>req\<close> is not empty here.
\<close>

definition decode_or_reject ::
  "(byte list \<Rightarrow> 'r decoded) \<Rightarrow> byte list \<Rightarrow> byte list \<Rightarrow> tcp_server
     \<Rightarrow> 'r option outcome \<times> tcp_server" where
  "decode_or_reject Request req req_uid_and_pdu s =
    (case Request req_uid_and_pdu of
       Decoded r \<Rightarrow> (Returns (Some r), s)
     | ModbusException function_code exception_code \<Rightarrow>
         (case send_exception_response (uint (hd req)) function_code exception_code s of
            (Raises err, s1) \<Rightarrow> (Raises err, s1)
          | (Returns u, s1) \<Rightarrow> (Returns None, s1))
     | DecodeRaises err \<Rightarrow> (Raises err, s))"

text \<open>
  The second half of \<^verbatim>\<open>get_request\<close>, from the comment \<^verbatim>\<open># Read the received data.\<close>
  on; \<open>c\<close> is \<^verbatim>\<open>self._current_sock\<close>. A \<^verbatim>\<open>struct.error\<close> of the unpacking is caught by
  \<^verbatim>\<open>except Exception\<close>; \<^verbatim>\<open>req_uid_and_pdu[0]\<close> on an empty slice is outside the
  \<^verbatim>\<open>try\<close> and raises \<^verbatim>\<open>IndexError\<close>.
\<close>

definition read_request ::
  "(byte list \<Rightarrow> 'r decoded) \<Rightarrow> int list option \<Rightarrow> int \<Rightarrow> nat \<Rightarrow> tcp_server
     \<Rightarrow> 'r option outcome \<times> tcp_server" where
  "read_request Request unit_addr_list timeout c s =
    (let s1 = upd_sock c (\<lambda>k. k\<lparr>sock_timeout := timeout\<rparr>) s
     in case recv 260 (socks s1 c) of
          (RecvOSError, k) \<Rightarrow> (Returns None, upd_sock c (\<lambda>_. k) s1)
        | (RecvError, k) \<Rightarrow> (Returns None, upd_sock c (\<lambda>_. k) s1)
        | (Data req, k) \<Rightarrow>
            (let s2 = upd_sock c (\<lambda>_. k) s1
             in if length req = 0 then (Returns None, s2)
                else
                  (case unpack_HHH (take (MBAP_HDR_LENGTH - 1) req) of
                     Inl err \<Rightarrow> (Returns None, s2)
                   | Inr (tid, req_pid, req_len) \<Rightarrow>
                       (let s3 = s2\<lparr>req_tid := Some tid\<rparr>;
                            req_uid_and_pdu = take (nat req_len) (drop (MBAP_HDR_LENGTH - 1) req)
                        in if req_pid \<noteq> 0 then (Returns None, s3)
                           else
                             (case unit_addr_list of
                                None \<Rightarrow> decode_or_reject Request req req_uid_and_pdu s3
                              | Some l \<Rightarrow>
                                  (case req_uid_and_pdu of
                                     [] \<Rightarrow> (Raises IndexError, s3)
                                   | u # pdu \<Rightarrow>
                                       if uint u \<notin> set l then (Returns None, s3)
                                       else decode_or_reject Request req req_uid_and_pdu s3))))))"

text \<open>
  The first statements of \<^verbatim>\<open>get_request\<close>, once \<^verbatim>\<open>self._socklist[self._socknum]\<close> has
  not raised: \<^verbatim>\<open>_current_sock\<close> becomes that element and \<^verbatim>\<open>_socknum\<close> is increased for
  the next call, back to 0 at the end of the list.
\<close>

definition select_socket :: "tcp_server \<Rightarrow> tcp_server" where
  "select_socket s =
    s\<lparr>current_sock := socklist s ! socknum s,
      socknum := (if length (socklist s) \<le> socknum s + 1 then 0 else socknum s + 1)\<rparr>"

text \<open>
  \<^verbatim>\<open>TCPServer.get_request\<close>. \<open>link_status\<close> is
  \<^verbatim>\<open>self._sockpool._interface.link_status\<close> and \<open>now\<close> is \<^verbatim>\<open>time.monotonic()\<close> at this
  call. The result is what the call returns or raises, and the server afterwards:
  the attributes assigned before an exception stay assigned.
\<close>

definition get_request ::
  "(byte list \<Rightarrow> 'r decoded) \<Rightarrow> bool \<Rightarrow> real \<Rightarrow> int list option \<Rightarrow> int \<Rightarrow> tcp_server
     \<Rightarrow> 'r option outcome \<times> tcp_server" where
  "get_request Request link_status now unit_addr_list timeout s =
    (if length (socklist s) \<le> socknum s then (Raises IndexError, s)
     else
       (let current_socknum = socknum s;
            s1 = select_socket s
        in case current_sock s1 of
             None \<Rightarrow> (Raises NotBound, s1)
           | Some c \<Rightarrow>
               if \<not> link_status then
                 (Returns None,
                  if 5 \<le> now - link_timestamp s1 \<and> \<not> socket_closed (socks s1 c)
                  then upd_sock c close s1 else s1)
               else
                 (let s2 = s1\<lparr>link_timestamp := now\<rparr>;
                      is_connected = (if status_raises (socks s2 c) then False
                                      else sock_connected (socks s2 c));
                      is_closed = (if status_raises (socks s2 c) then True
                                   else socket_closed (socks s2 c))
                  in if \<not> is_connected then
                       (if is_closed then
                          (case listening_socket s2 of
                             (i, s3) \<Rightarrow>
                               (Returns None,
                                s3\<lparr>current_sock := Some i,
                                   socklist := (socklist s3)[current_socknum := Some i]\<rparr>))
                        else (Returns None, s2))
                     else read_request Request unit_addr_list timeout c s2)))"

text \<open>
  Consecutive calls of \<open>get_request\<close>, one for each element of the list (the link
  status, the time, the unit address list and the timeout of that call), as the loop
  of main.py makes them through \<^verbatim>\<open>client.process()\<close>, which goes on after an
  exception. The result lists, call by call, the index \<^verbatim>\<open>self._socknum\<close> with which
  the call reads \<^verbatim>\<open>self._socklist\<close>.
\<close>

fun polls ::
  "(byte list \<Rightarrow> 'r decoded) \<Rightarrow> (bool \<times> real \<times> int list option \<times> int) list \<Rightarrow> tcp_server
     \<Rightarrow> nat list \<times> tcp_server" where
  "polls Request [] s = ([], s)"
| "polls Request ((link_status, now, unit_addr_list, timeout) # calls) s =
    (case get_request Request link_status now unit_addr_list timeout s of
       (out, s1) \<Rightarrow>
         (case polls Request calls s1 of
            (slots, s2) \<Rightarrow> (socknum s # slots, s2)))"

text \<open>
  Modelled from the spec: one cycle of the Server Loop (\<^verbatim>\<open>Modbus.process\<close> in
  umodbus/modbus.py). It asks the transport for the next Request; if there is none
  it returns immediately; a Request is executed against the register table. The
  parameter \<open>execute\<close> stands for all of that execution (validation, register table
  reads and writes, hooks, sending the reply).
\<close>

definition process ::
  "('r \<Rightarrow> tcp_server \<times> app \<Rightarrow> tcp_server \<times> app) \<Rightarrow> (byte list \<Rightarrow> 'r decoded) \<Rightarrow> bool \<Rightarrow> real
     \<Rightarrow> int list option \<Rightarrow> int \<Rightarrow> tcp_server \<times> app \<Rightarrow> py_error option \<times> tcp_server \<times> app" where
  "process execute Request link_status now unit_addr_list timeout sa =
    (case get_request Request link_status now unit_addr_list timeout (fst sa) of
       (Raises err, s1) \<Rightarrow> (Some err, s1, snd sa)
     | (Returns None, s1) \<Rightarrow> (None, s1, snd sa)
     | (Returns (Some r), s1) \<Rightarrow> (None, execute r (s1, snd sa)))"

text \<open>A constructor \<^verbatim>\<open>Request\<close> that decodes every frame, for concrete runs.\<close>

definition Request_unit :: "byte list \<Rightarrow> unit decoded" where
  "Request_unit pdu = Decoded ()"

text \<open>
  Servers and frames for concrete runs: a server bound with three and with one
  connection, a client that has connected to socket 0 and sent a frame, a frame that
  asks for the input registers 0x0400 and 0x0401 of unit 0xff under transaction id
  0x1234, the same frame with protocol id 1, and a constructor \<^verbatim>\<open>Request\<close> that rejects
  every frame with the exception code 1 for its function code.
\<close>

definition pool3 :: tcp_server where
  "pool3 = TCPServer_bind None 502 3 TCPServer_init"

definition pool1 :: tcp_server where
  "pool1 = TCPServer_bind None 502 1 TCPServer_init"

definition client_sends :: "byte list \<Rightarrow> tcp_server \<Rightarrow> tcp_server" where
  "client_sends bs s =
     upd_sock 0 (\<lambda>k. k\<lparr>sock_connected := True, listening := False, rx := rx k @ [Data bs]\<rparr>) s"

definition frame_read :: "byte list" where
  "frame_read = [0x12, 0x34, 0x00, 0x00, 0x00, 0x06, 0xff, 0x04, 0x04, 0x00, 0x00, 0x02]"

definition frame_bad_pid :: "byte list" where
  "frame_bad_pid = [0x12, 0x34, 0x00, 0x01, 0x00, 0x06, 0xff, 0x04, 0x04, 0x00, 0x00, 0x02]"

definition Request_illegal :: "byte list \<Rightarrow> unit decoded" where
  "Request_illegal req_uid_and_pdu = ModbusException (req_uid_and_pdu ! 1) 1"

section \<open>Properties of the hardware abstraction layer\<close>

lemma channel_cases:
  obtains "c = (1::int)" | "c = 3" | "c = 5" | "c = 7" | "c = 9"
  | "c \<noteq> 1" "c \<noteq> 3" "c \<noteq> 5" "c \<noteq> 7" "c \<noteq> 9"
  by blast

lemma en_counter_fst:
  "fst (en_counter c h) \<longleftrightarrow> c \<in> set counter_channels \<and> counter_of c h = None"
  by (cases c rule: channel_cases) (simp_all add: en_counter_def counter_of_def counter_channels_def)

lemma en_counter_False_same: "\<not> fst (en_counter c h) \<Longrightarrow> snd (en_counter c h) = h"
  by (cases c rule: channel_cases) (auto simp: en_counter_def split: if_split_asm)

lemma en_counter_again: "\<not> fst (en_counter c (snd (en_counter c h)))"
  by (cases c rule: channel_cases) (simp_all add: en_counter_def)

lemma dis_counter_fst:
  "fst (dis_counter c h) \<longleftrightarrow> c \<in> set counter_channels \<and> counter_of c h \<noteq> None"
  by (cases c rule: channel_cases) (simp_all add: dis_counter_def counter_of_def counter_channels_def)

lemma dis_counter_False_same: "\<not> fst (dis_counter c h) \<Longrightarrow> snd (dis_counter c h) = h"
  by (cases c rule: channel_cases) (auto simp: dis_counter_def split: if_split_asm)

lemma dis_counter_again: "\<not> fst (dis_counter c (snd (dis_counter c h)))"
  by (cases c rule: channel_cases) (simp_all add: dis_counter_def)

text \<open>
  Claim C9. For every channel argument \<open>c\<close>, \<open>en_counter c\<close> returns \<open>True\<close> if and only
  if \<open>c\<close> is one of 1, 3, 5, 7, 9 and the counter object of that channel is \<open>None\<close>;
  when it returns \<open>False\<close> the module state is unchanged. Symmetrically,
  \<open>dis_counter c\<close> returns \<open>True\<close> if and only if \<open>c\<close> is one of 1, 3, 5, 7, 9 and the
  counter object of that channel is not \<open>None\<close>, and leaves the state unchanged when
  it returns \<open>False\<close>. Hence a second consecutive \<open>en_counter c\<close> (or
  \<open>dis_counter c\<close>) returns \<open>False\<close>.
\<close>

theorem en_dis_counter_iff:
  "(fst (en_counter c h) \<longleftrightarrow> c \<in> set counter_channels \<and> counter_of c h = None)
   \<and> (\<not> fst (en_counter c h) \<longrightarrow> snd (en_counter c h) = h)
   \<and> (fst (dis_counter c h) \<longleftrightarrow> c \<in> set counter_channels \<and> counter_of c h \<noteq> None)
   \<and> (\<not> fst (dis_counter c h) \<longrightarrow> snd (dis_counter c h) = h)
   \<and> \<not> fst (en_counter c (snd (en_counter c h)))
   \<and> \<not> fst (dis_counter c (snd (dis_counter c h)))"
  using en_counter_fst [of c h] en_counter_False_same [of c h] en_counter_again [of c h]
    dis_counter_fst [of c h] dis_counter_False_same [of c h] dis_counter_again [of c h]
  by blast

theorem en_dis_counter_iff_witness:
  "fst (en_counter 1 hal_init) \<and> \<not> fst (en_counter 1 (snd (en_counter 1 hal_init)))
   \<and> \<not> fst (dis_counter 1 hal_init) \<and> snd (dis_counter 1 hal_init) = hal_init"
  using en_dis_counter_iff [of 1 hal_init]
  by (simp add: counter_of_def counter_channels_def hal_init_def)

section \<open>Properties of the counter hooks\<close>

lemma bind_err_Inr: "bind_err m f = Inr y \<longleftrightarrow> (\<exists>x. m = Inr x \<and> f x = Inr y)"
  by (cases m) (simp_all add: bind_err_def)

lemma get_coil_Inr: "get_coil t a = Inr v \<longleftrightarrow> map_option val (COILS t a) = Some v"
  by (cases "COILS t a") (simp_all add: get_coil_def)

lemma set_ireg_Inr:
  "set_ireg t a v = Inr t' \<longleftrightarrow>
     (\<exists>e. IREGS t a = Some e \<and> t' = t\<lparr>IREGS := (IREGS t)(a \<mapsto> e\<lparr>val := v\<rparr>)\<rparr>)"
  by (cases "IREGS t a") (auto simp: set_ireg_def)

lemma set_coil_Inr:
  "set_coil t a v = Inr t' \<longleftrightarrow>
     (\<exists>e. COILS t a = Some e \<and> t' = t\<lparr>COILS := (COILS t)(a \<mapsto> e\<lparr>val := v\<rparr>)\<rparr>)"
  by (cases "COILS t a") (auto simp: set_coil_def)

lemma counter_get_block_cases:
  assumes "counter_get_block en cnt h s = Inr s'"
  obtains (skip) "coil_val s en \<noteq> Some (Single 1)" "s' = s"
  | (store) n e where "coil_val s en = Some (Single 1)" "cnt (Hal s) = Some n"
      "IREGS (client s) h = Some e"
      "s' = s\<lparr>client := (client s)\<lparr>IREGS := (IREGS (client s))
                (h \<mapsto> e\<lparr>val := Multi [drop_bit 8 n, n AND 0xffff]\<rparr>)\<rparr>\<rparr>"
proof (cases "coil_val s en = Some (Single 1)")
  case True
  with assms have c: "get_coil (client s) en = Inr (Single 1)"
    by (simp add: get_coil_Inr coil_val_def)
  from assms c obtain n where n: "cnt (Hal s) = Some n"
    by (cases "cnt (Hal s)") (simp_all add: counter_get_block_def bind_err_def)
  from assms c n obtain t' where
    t': "set_ireg (client s) h (Multi [drop_bit 8 n, n AND 0xffff]) = Inr t'" "s' = s\<lparr>client := t'\<rparr>"
    by (auto simp: counter_get_block_def bind_err_def split: sum.split_asm)
  from t'(1) obtain e where "IREGS (client s) h = Some e"
    "t' = (client s)\<lparr>IREGS := (IREGS (client s))(h \<mapsto> e\<lparr>val := Multi [drop_bit 8 n, n AND 0xffff]\<rparr>)\<rparr>"
    unfolding set_ireg_Inr by blast
  with True n t'(2) show ?thesis by (intro store) simp_all
next
  case False
  from assms obtain v where v: "get_coil (client s) en = Inr v"
    by (cases "get_coil (client s) en") (simp_all add: counter_get_block_def bind_err_def)
  with False have "v \<noteq> Single 1" by (auto simp: get_coil_Inr coil_val_def)
  with assms v have "s' = s" by (simp add: counter_get_block_def bind_err_def)
  with False show ?thesis by (rule skip)
qed

lemma counter_get_block_Inr:
  assumes "counter_get_block en cnt h s = Inr s'"
  shows "Hal s' = Hal s" and "coil_val s' = coil_val s"
    and "a \<noteq> h \<Longrightarrow> ireg_val s' a = ireg_val s a"
    and "coil_val s en = Some (Single 1) \<Longrightarrow>
           \<exists>n. cnt (Hal s) = Some n \<and> ireg_val s' h = Some (Multi [drop_bit 8 n, n AND 0xffff])"
  using assms
  by (cases rule: counter_get_block_cases; simp add: coil_val_def ireg_val_def fun_eq_iff)+



lemmas h_add_defs = COUNT1_H_ADD_def COUNT3_H_ADD_def COUNT5_H_ADD_def COUNT7_H_ADD_def
  COUNT9_H_ADD_def

lemmas en_add_defs = COUNT1_EN_ADD_def COUNT3_EN_ADD_def COUNT5_EN_ADD_def COUNT7_EN_ADD_def
  COUNT9_EN_ADD_def

lemma counter_get_cb_chain:
  assumes "counter_get_cb s0 = Inr s5"
  obtains s1 s2 s3 s4 where
    "counter_get_block COUNT1_EN_ADD count1 COUNT1_H_ADD s0 = Inr s1"
    "counter_get_block COUNT3_EN_ADD count3 COUNT3_H_ADD s1 = Inr s2"
    "counter_get_block COUNT5_EN_ADD count5 COUNT5_H_ADD s2 = Inr s3"
    "counter_get_block COUNT7_EN_ADD count7 COUNT7_H_ADD s3 = Inr s4"
    "counter_get_block COUNT9_EN_ADD count9 COUNT9_H_ADD s4 = Inr s5"
  using assms unfolding counter_get_cb_def bind_err_Inr by blast

lemma shift8_neq_shift16: "2 ^ 16 \<le> (n::int) \<Longrightarrow> drop_bit 8 n \<noteq> drop_bit 16 n"
  by (simp add: drop_bit_eq_div)

lemma counter_get_cb_stores:
  assumes run: "counter_get_cb s = Inr s'"
    and c: "c \<in> set counter_channels"
    and en: "coil_val s (en_add_of c) = Some (Single 1)"
  shows "\<exists>n. counter_of c (Hal s) = Some n
           \<and> ireg_val s' (h_add_of c) = Some (Multi [drop_bit 8 n, n AND 0xffff])"
proof -
  from run obtain s1 s2 s3 s4 where
    b1: "counter_get_block COUNT1_EN_ADD count1 COUNT1_H_ADD s = Inr s1" and
    b3: "counter_get_block COUNT3_EN_ADD count3 COUNT3_H_ADD s1 = Inr s2" and
    b5: "counter_get_block COUNT5_EN_ADD count5 COUNT5_H_ADD s2 = Inr s3" and
    b7: "counter_get_block COUNT7_EN_ADD count7 COUNT7_H_ADD s3 = Inr s4" and
    b9: "counter_get_block COUNT9_EN_ADD count9 COUNT9_H_ADD s4 = Inr s'"
    by (rule counter_get_cb_chain)
  note f1 = counter_get_block_Inr [OF b1] and f3 = counter_get_block_Inr [OF b3]
    and f5 = counter_get_block_Inr [OF b5] and f7 = counter_get_block_Inr [OF b7]
    and f9 = counter_get_block_Inr [OF b9]
  have hal: "Hal s1 = Hal s" "Hal s2 = Hal s" "Hal s3 = Hal s" "Hal s4 = Hal s"
    by (simp_all add: f1(1) f3(1) f5(1) f7(1))
  have coil: "coil_val s1 = coil_val s" "coil_val s2 = coil_val s" "coil_val s3 = coil_val s"
    "coil_val s4 = coil_val s"
    by (simp_all add: f1(2) f3(2) f5(2) f7(2))
  from c consider "c = 1" | "c = 3" | "c = 5" | "c = 7" | "c = 9"
    by (auto simp: counter_channels_def)
  then show ?thesis
  proof cases
    case 1
    with en f1(4) obtain n where "count1 (Hal s) = Some n"
      "ireg_val s1 COUNT1_H_ADD = Some (Multi [drop_bit 8 n, n AND 0xffff])"
      by (auto simp: en_add_of_def)
    moreover have "ireg_val s' COUNT1_H_ADD = ireg_val s1 COUNT1_H_ADD"
      by (simp add: f3(3) f5(3) f7(3) f9(3) h_add_defs)
    ultimately show ?thesis using 1 by (simp add: counter_of_def h_add_of_def)
  next
    case 2
    with en f3(4) coil hal obtain n where "count3 (Hal s) = Some n"
      "ireg_val s2 COUNT3_H_ADD = Some (Multi [drop_bit 8 n, n AND 0xffff])"
      by (auto simp: en_add_of_def)
    moreover have "ireg_val s' COUNT3_H_ADD = ireg_val s2 COUNT3_H_ADD"
      by (simp add: f5(3) f7(3) f9(3) h_add_defs)
    ultimately show ?thesis using 2 by (simp add: counter_of_def h_add_of_def)
  next
    case 3
    with en f5(4) coil hal obtain n where "count5 (Hal s) = Some n"
      "ireg_val s3 COUNT5_H_ADD = Some (Multi [drop_bit 8 n, n AND 0xffff])"
      by (auto simp: en_add_of_def)
    moreover have "ireg_val s' COUNT5_H_ADD = ireg_val s3 COUNT5_H_ADD"
      by (simp add: f7(3) f9(3) h_add_defs)
    ultimately show ?thesis using 3 by (simp add: counter_of_def h_add_of_def)
  next
    case 4
    with en f7(4) coil hal obtain n where "count7 (Hal s) = Some n"
      "ireg_val s4 COUNT7_H_ADD = Some (Multi [drop_bit 8 n, n AND 0xffff])"
      by (auto simp: en_add_of_def)
    moreover have "ireg_val s' COUNT7_H_ADD = ireg_val s4 COUNT7_H_ADD"
      by (simp add: f9(3) h_add_defs)
    ultimately show ?thesis using 4 by (simp add: counter_of_def h_add_of_def)
  next
    case 5
    with en f9(4) coil hal obtain n where "count9 (Hal s) = Some n"
      "ireg_val s' COUNT9_H_ADD = Some (Multi [drop_bit 8 n, n AND 0xffff])"
      by (auto simp: en_add_of_def)
    then show ?thesis using 5 by (simp add: counter_of_def h_add_of_def)
  qed
qed

text \<open>
  Claim C1. For every counter channel \<open>c\<close> of 1, 3, 5, 7, 9 whose enable coil is 1, a run
  of the read hook \<open>counter_get_cb\<close> stores the pair \<open>[count >> 8, count & 0xffff]\<close> as the
  value of that channel's counter registers, \<open>count\<close> being the count of the channel's
  counter: the high word is the count shifted right by 8, not by 16. So the stored pair
  differs from the standard split \<open>[count >> 16, count & 0xffff]\<close> whenever
  \<open>count \<ge> 2^16\<close>.
\<close>

theorem counter_get_cb_high_word_shift8:
  assumes "counter_get_cb s = Inr s'"
    and "c \<in> set counter_channels"
    and "coil_val s (en_add_of c) = Some (Single 1)"
  shows "\<exists>count. counter_of c (Hal s) = Some count
           \<and> ireg_val s' (h_add_of c) = Some (Multi [drop_bit 8 count, count AND 0xffff])
           \<and> (2 ^ 16 \<le> count \<longrightarrow>
                [drop_bit 8 count, count AND 0xffff] \<noteq> [drop_bit 16 count, count AND 0xffff])"
  using counter_get_cb_stores [OF assms] shift8_neq_shift16 by auto

lemma counter_get_cb_app_counting: "\<exists>s'. counter_get_cb app_counting = Inr s'"
  by (simp add: counter_get_cb_def counter_get_block_def bind_err_def get_coil_def set_ireg_def
      app_counting_def register_definitions_def hal_init_def h_add_defs en_add_defs
      COUNT1_RST_ADD_def COUNT3_RST_ADD_def COUNT5_RST_ADD_def COUNT7_RST_ADD_def COUNT9_RST_ADD_def
      DO0_ADD_def DO1_ADD_def DO2_ADD_def DO3_ADD_def)

theorem counter_get_cb_high_word_shift8_witness:
  "\<exists>s'. counter_get_cb app_counting = Inr s'
     \<and> ireg_val s' COUNT1_H_ADD = Some (Multi [273, 4464])
     \<and> [273, 4464] \<noteq> [1, 4464 :: int]"
proof -
  obtain s' where run: "counter_get_cb app_counting = Inr s'"
    using counter_get_cb_app_counting by blast
  have c: "(1::int) \<in> set counter_channels" by (simp add: counter_channels_def)
  have en: "coil_val app_counting (en_add_of 1) = Some (Single 1)"
    by (simp add: coil_val_def app_counting_def en_add_of_def)
  from counter_get_cb_high_word_shift8 [OF run c en] run show ?thesis
    by (auto simp: counter_of_def app_counting_def h_add_of_def drop_bit_eq_div and_int_unfold)
qed

lemmas rst_add_defs = COUNT1_RST_ADD_def COUNT3_RST_ADD_def COUNT5_RST_ADD_def
  COUNT7_RST_ADD_def COUNT9_RST_ADD_def

lemma counter_rst_block_cases:
  assumes "counter_rst_block rst cnt reset h s = Inr s'"
  obtains (skip) "coil_val s rst \<noteq> Some (Single 1)" "s' = s"
  | (reset) n e e2 where "coil_val s rst = Some (Single 1)" "cnt (Hal s) = Some n"
      "COILS (client s) rst = Some e" "IREGS (client s) h = Some e2"
      "s' = \<lparr>client = (client s)
               \<lparr>COILS := (COILS (client s))(rst \<mapsto> e\<lparr>val := Single 0\<rparr>),
                IREGS := (IREGS (client s))(h \<mapsto> e2\<lparr>val := Multi [0, 0]\<rparr>)\<rparr>,
             Hal = reset (Hal s)\<rparr>"
proof (cases "coil_val s rst = Some (Single 1)")
  case True
  with assms have c: "get_coil (client s) rst = Inr (Single 1)"
    by (simp add: get_coil_Inr coil_val_def)
  from assms c obtain t1 where t1: "set_coil (client s) rst (Single 0) = Inr t1"
    by (cases "set_coil (client s) rst (Single 0)")
       (simp_all add: counter_rst_block_def bind_err_def)
  from assms c t1 obtain n where n: "cnt (Hal s) = Some n"
    by (cases "cnt (Hal s)") (simp_all add: counter_rst_block_def bind_err_def)
  from assms c t1 n obtain t2 where
    t2: "set_ireg t1 h (Multi [0, 0]) = Inr t2" "s' = \<lparr>client = t2, Hal = reset (Hal s)\<rparr>"
    by (auto simp: counter_rst_block_def bind_err_def split: sum.split_asm)
  from t1 obtain e where e: "COILS (client s) rst = Some e"
    "t1 = (client s)\<lparr>COILS := (COILS (client s))(rst \<mapsto> e\<lparr>val := Single 0\<rparr>)\<rparr>"
    unfolding set_coil_Inr by blast
  from t2(1) obtain e2 where e2: "IREGS t1 h = Some e2"
    "t2 = t1\<lparr>IREGS := (IREGS t1)(h \<mapsto> e2\<lparr>val := Multi [0, 0]\<rparr>)\<rparr>"
    unfolding set_ireg_Inr by blast
  from e e2 t2(2) True n show ?thesis by (intro reset [of n e e2]) simp_all
next
  case False
  from assms obtain v where v: "get_coil (client s) rst = Inr v"
    by (cases "get_coil (client s) rst") (simp_all add: counter_rst_block_def bind_err_def)
  with False have "v \<noteq> Single 1" by (auto simp: get_coil_Inr coil_val_def)
  with assms v have "s' = s" by (simp add: counter_rst_block_def bind_err_def)
  with False show ?thesis by (rule skip)
qed

lemma counter_rst_block_Inr:
  assumes "counter_rst_block rst cnt reset h s = Inr s'"
  shows "a \<noteq> rst \<Longrightarrow> coil_val s' a = coil_val s a"
    and "b \<noteq> h \<Longrightarrow> ireg_val s' b = ireg_val s b"
    and "coil_val s rst = Some (Single 1) \<Longrightarrow>
           coil_val s' rst = Some (Single 0) \<and> ireg_val s' h = Some (Multi [0, 0])"
    and "coil_val s rst \<noteq> Some (Single 1) \<Longrightarrow> coil_val s' rst = coil_val s rst"
  using assms
  by (cases rule: counter_rst_block_cases; simp add: coil_val_def ireg_val_def)+

lemma counter_rst_set_cb_chain:
  assumes "counter_rst_set_cb s0 = Inr s5"
  obtains s1 s2 s3 s4 where
    "counter_rst_block COUNT1_RST_ADD count1 (\<lambda>h. h\<lparr>count1 := Some 0\<rparr>) COUNT1_H_ADD s0 = Inr s1"
    "counter_rst_block COUNT3_RST_ADD count3 (\<lambda>h. h\<lparr>count3 := Some 0\<rparr>) COUNT3_H_ADD s1 = Inr s2"
    "counter_rst_block COUNT5_RST_ADD count5 (\<lambda>h. h\<lparr>count5 := Some 0\<rparr>) COUNT5_H_ADD s2 = Inr s3"
    "counter_rst_block COUNT7_RST_ADD count7 (\<lambda>h. h\<lparr>count7 := Some 0\<rparr>) COUNT7_H_ADD s3 = Inr s4"
    "counter_rst_block COUNT9_RST_ADD count9 (\<lambda>h. h\<lparr>count9 := Some 0\<rparr>) COUNT9_H_ADD s4 = Inr s5"
  using assms unfolding counter_rst_set_cb_def bind_err_Inr by blast

text \<open>The effect of one block on its own reset coil and counter value.\<close>

lemma counter_rst_block_own:
  assumes "counter_rst_block rst cnt reset h s = Inr s'"
  shows "coil_val s' rst =
           (if coil_val s rst = Some (Single 1) then Some (Single 0) else coil_val s rst)
         \<and> (coil_val s rst = Some (Single 1) \<longrightarrow> ireg_val s' h = Some (Multi [0, 0]))"
  using counter_rst_block_Inr(3,4) [OF assms] by auto

lemma counter_rst_set_cb_effect:
  assumes run: "counter_rst_set_cb s = Inr s'" and c: "c \<in> set counter_channels"
  shows "coil_val s' (rst_add_of c) =
           (if coil_val s (rst_add_of c) = Some (Single 1) then Some (Single 0)
            else coil_val s (rst_add_of c))
         \<and> (coil_val s (rst_add_of c) = Some (Single 1) \<longrightarrow>
              ireg_val s' (h_add_of c) = Some (Multi [0, 0]))"
proof -
  from run obtain s1 s2 s3 s4 where
    b1: "counter_rst_block COUNT1_RST_ADD count1 (\<lambda>h. h\<lparr>count1 := Some 0\<rparr>) COUNT1_H_ADD s = Inr s1" and
    b3: "counter_rst_block COUNT3_RST_ADD count3 (\<lambda>h. h\<lparr>count3 := Some 0\<rparr>) COUNT3_H_ADD s1 = Inr s2" and
    b5: "counter_rst_block COUNT5_RST_ADD count5 (\<lambda>h. h\<lparr>count5 := Some 0\<rparr>) COUNT5_H_ADD s2 = Inr s3" and
    b7: "counter_rst_block COUNT7_RST_ADD count7 (\<lambda>h. h\<lparr>count7 := Some 0\<rparr>) COUNT7_H_ADD s3 = Inr s4" and
    b9: "counter_rst_block COUNT9_RST_ADD count9 (\<lambda>h. h\<lparr>count9 := Some 0\<rparr>) COUNT9_H_ADD s4 = Inr s'"
    by (rule counter_rst_set_cb_chain)
  note f1 = counter_rst_block_Inr(1,2) [OF b1] and f3 = counter_rst_block_Inr(1,2) [OF b3]
    and f5 = counter_rst_block_Inr(1,2) [OF b5] and f7 = counter_rst_block_Inr(1,2) [OF b7]
    and f9 = counter_rst_block_Inr(1,2) [OF b9]
  from c consider "c = 1" | "c = 3" | "c = 5" | "c = 7" | "c = 9"
    by (auto simp: counter_channels_def)
  then show ?thesis
  proof cases
    case 1
    have "coil_val s' COUNT1_RST_ADD = coil_val s1 COUNT1_RST_ADD"
      by (simp add: f3(1) f5(1) f7(1) f9(1) rst_add_defs)
    moreover have "ireg_val s' COUNT1_H_ADD = ireg_val s1 COUNT1_H_ADD"
      by (simp add: f3(2) f5(2) f7(2) f9(2) h_add_defs)
    ultimately show ?thesis
      using 1 counter_rst_block_own [OF b1] by (simp add: rst_add_of_def h_add_of_def)
  next
    case 2
    have "coil_val s1 COUNT3_RST_ADD = coil_val s COUNT3_RST_ADD"
      by (simp add: f1(1) rst_add_defs)
    moreover have "coil_val s' COUNT3_RST_ADD = coil_val s2 COUNT3_RST_ADD"
      by (simp add: f5(1) f7(1) f9(1) rst_add_defs)
    moreover have "ireg_val s' COUNT3_H_ADD = ireg_val s2 COUNT3_H_ADD"
      by (simp add: f5(2) f7(2) f9(2) h_add_defs)
    ultimately show ?thesis
      using 2 counter_rst_block_own [OF b3] by (simp add: rst_add_of_def h_add_of_def)
  next
    case 3
    have "coil_val s2 COUNT5_RST_ADD = coil_val s COUNT5_RST_ADD"
      by (simp add: f1(1) f3(1) rst_add_defs)
    moreover have "coil_val s' COUNT5_RST_ADD = coil_val s3 COUNT5_RST_ADD"
      by (simp add: f7(1) f9(1) rst_add_defs)
    moreover have "ireg_val s' COUNT5_H_ADD = ireg_val s3 COUNT5_H_ADD"
      by (simp add: f7(2) f9(2) h_add_defs)
    ultimately show ?thesis
      using 3 counter_rst_block_own [OF b5] by (simp add: rst_add_of_def h_add_of_def)
  next
    case 4
    have "coil_val s3 COUNT7_RST_ADD = coil_val s COUNT7_RST_ADD"
      by (simp add: f1(1) f3(1) f5(1) rst_add_defs)
    moreover have "coil_val s' COUNT7_RST_ADD = coil_val s4 COUNT7_RST_ADD"
      by (simp add: f9(1) rst_add_defs)
    moreover have "ireg_val s' COUNT7_H_ADD = ireg_val s4 COUNT7_H_ADD"
      by (simp add: f9(2) h_add_defs)
    ultimately show ?thesis
      using 4 counter_rst_block_own [OF b7] by (simp add: rst_add_of_def h_add_of_def)
  next
    case 5
    have "coil_val s4 COUNT9_RST_ADD = coil_val s COUNT9_RST_ADD"
      by (simp add: f1(1) f3(1) f5(1) f7(1) rst_add_defs)
    then show ?thesis
      using 5 counter_rst_block_own [OF b9] by (simp add: rst_add_of_def h_add_of_def)
  qed
qed

text \<open>
  The hook does not complete when a reset coil is 1 while its counter is disabled:
  \<^verbatim>\<open>Hal.count1.reset()\<close> on \<^verbatim>\<open>None\<close> raises.
\<close>

lemma counter_rst_set_cb_disabled_raises:
  "coil_val s COUNT1_RST_ADD = Some (Single 1) \<Longrightarrow> count1 (Hal s) = None \<Longrightarrow>
     counter_rst_set_cb s = Inl AttributeError"
proof -
  assume coil: "coil_val s COUNT1_RST_ADD = Some (Single 1)" and off: "count1 (Hal s) = None"
  from coil obtain e where "COILS (client s) COUNT1_RST_ADD = Some e" "val e = Single 1"
    by (auto simp: coil_val_def)
  with off have
    "counter_rst_block COUNT1_RST_ADD count1 (\<lambda>h. h\<lparr>count1 := Some 0\<rparr>) COUNT1_H_ADD s
       = Inl AttributeError"
    by (simp add: counter_rst_block_def bind_err_def get_coil_def set_coil_def)
  then show ?thesis by (simp add: counter_rst_set_cb_def bind_err_def)
qed

text \<open>
  Claim C10. After the on-write hook \<open>counter_rst_set_cb\<close> completes, no counter reset
  coil is 1: a reset coil that was 1 reads 0 (the hook writes 0 back) and a reset coil
  that was 0 still reads 0, so every reset coil, holding a bit, reads 0; and for each
  reset coil that was 1 the counter value registers of its channel are \<open>[0, 0]\<close>.
\<close>

theorem counter_rst_set_cb_self_clearing:
  assumes "counter_rst_set_cb s = Inr s'" and "c \<in> set counter_channels"
  shows "coil_val s' (rst_add_of c) \<noteq> Some (Single 1)
         \<and> (coil_val s (rst_add_of c) = Some (Single 0) \<or> coil_val s (rst_add_of c) = Some (Single 1)
              \<longrightarrow> coil_val s' (rst_add_of c) = Some (Single 0))
         \<and> (coil_val s (rst_add_of c) = Some (Single 1) \<longrightarrow>
              ireg_val s' (h_add_of c) = Some (Multi [0, 0]))"
  using counter_rst_set_cb_effect [OF assms] by auto

lemma counter_rst_set_cb_app_resetting: "\<exists>s'. counter_rst_set_cb app_resetting = Inr s'"
  by (simp add: counter_rst_set_cb_def counter_rst_block_def bind_err_def get_coil_def set_ireg_def
      set_coil_def app_resetting_def register_definitions_def hal_init_def h_add_defs en_add_defs
      rst_add_defs DO0_ADD_def DO1_ADD_def DO2_ADD_def DO3_ADD_def)

theorem counter_rst_set_cb_self_clearing_witness:
  "\<exists>s'. counter_rst_set_cb app_resetting = Inr s'
     \<and> coil_val app_resetting COUNT1_RST_ADD = Some (Single 1)
     \<and> ireg_val app_resetting COUNT1_H_ADD = Some (Multi [273, 4464])
     \<and> coil_val s' COUNT1_RST_ADD = Some (Single 0)
     \<and> ireg_val s' COUNT1_H_ADD = Some (Multi [0, 0])"
proof -
  obtain s' where run: "counter_rst_set_cb app_resetting = Inr s'"
    using counter_rst_set_cb_app_resetting by blast
  have c: "(1::int) \<in> set counter_channels" by (simp add: counter_channels_def)
  have bit: "coil_val app_resetting (rst_add_of 1) = Some (Single 1)"
    by (simp add: coil_val_def app_resetting_def rst_add_of_def)
  have old: "ireg_val app_resetting COUNT1_H_ADD = Some (Multi [273, 4464])"
    by (simp add: ireg_val_def app_resetting_def)
  from counter_rst_set_cb_self_clearing [OF run c] bit run old show ?thesis
    by (auto simp: rst_add_of_def h_add_of_def)
qed

lemma counter_of_en_counter:
  "counter_of c' (snd (en_counter c h)) =
     (if c' = c \<and> c \<in> set counter_channels \<and> counter_of c h = None then Some 0
      else counter_of c' h)"
  by (cases c rule: channel_cases; cases c' rule: channel_cases)
     (simp_all add: en_counter_def counter_of_def counter_channels_def)

lemma counter_of_dis_counter:
  "counter_of c' (snd (dis_counter c h)) = (if c' = c then None else counter_of c' h)"
  by (cases c rule: channel_cases; cases c' rule: channel_cases)
     (simp_all add: dis_counter_def counter_of_def)


lemma counter_en_block_cases:
  assumes "counter_en_block en c h s = Inr s'"
  obtains (on) e where "coil_val s en = Some (Single 1)" "fst (en_counter c (Hal s))"
      "IREGS (client s) h = Some e"
      "s' = \<lparr>client = (client s)\<lparr>IREGS := (IREGS (client s))(h \<mapsto> e\<lparr>val := Multi [0, 0]\<rparr>)\<rparr>,
             Hal = snd (en_counter c (Hal s))\<rparr>"
  | (already) "coil_val s en = Some (Single 1)" "\<not> fst (en_counter c (Hal s))"
      "s' = s\<lparr>Hal := snd (en_counter c (Hal s))\<rparr>"
  | (off) "coil_val s en \<noteq> Some (Single 1)" "s' = s\<lparr>Hal := snd (dis_counter c (Hal s))\<rparr>"
proof (cases "coil_val s en = Some (Single 1)")
  case True
  with assms have g: "get_coil (client s) en = Inr (Single 1)"
    by (simp add: get_coil_Inr coil_val_def)
  obtain r h' where eh: "en_counter c (Hal s) = (r, h')" by (cases "en_counter c (Hal s)")
  show ?thesis
  proof (cases r)
    case True
    with assms g eh obtain t' where
      t': "set_ireg (client s) h (Multi [0, 0]) = Inr t'" "s' = \<lparr>client = t', Hal = h'\<rparr>"
      by (auto simp: counter_en_block_def bind_err_def split: sum.split_asm)
    from t'(1) obtain e where "IREGS (client s) h = Some e"
      "t' = (client s)\<lparr>IREGS := (IREGS (client s))(h \<mapsto> e\<lparr>val := Multi [0, 0]\<rparr>)\<rparr>"
      unfolding set_ireg_Inr by blast
    with \<open>coil_val s en = Some (Single 1)\<close> True eh t'(2) show ?thesis
      by (intro on [of e]) simp_all
  next
    case False
    with assms g eh have "s' = s\<lparr>Hal := h'\<rparr>"
      by (simp add: counter_en_block_def bind_err_def)
    with \<open>coil_val s en = Some (Single 1)\<close> False eh show ?thesis
      by (intro already) simp_all
  qed
next
  case False
  from assms obtain v where v: "get_coil (client s) en = Inr v"
    by (cases "get_coil (client s) en") (simp_all add: counter_en_block_def bind_err_def)
  with False have "v \<noteq> Single 1" by (auto simp: get_coil_Inr coil_val_def)
  with assms v have "s' = s\<lparr>Hal := snd (dis_counter c (Hal s))\<rparr>"
    by (simp add: counter_en_block_def bind_err_def)
  with False show ?thesis by (rule off)
qed

lemma counter_en_block_Inr:
  assumes "counter_en_block en c h s = Inr s'"
  shows "COILS (client s') = COILS (client s)"
    and "ireg_len s' = ireg_len s"
    and "b \<noteq> h \<Longrightarrow> ireg_val s' b = ireg_val s b"
    and "Hal s' = (if coil_val s en = Some (Single 1) then snd (en_counter c (Hal s))
                   else snd (dis_counter c (Hal s)))"
    and "coil_val s en = Some (Single 1) \<Longrightarrow> fst (en_counter c (Hal s)) \<Longrightarrow>
           ireg_val s' h = Some (Multi [0, 0])"
  using assms
  by (cases rule: counter_en_block_cases; simp add: ireg_val_def ireg_len_def fun_eq_iff)+

lemma counter_en_block_total:
  assumes "COILS (client s) en \<noteq> None" and "ireg_len s h \<noteq> None"
  shows "\<exists>s'. counter_en_block en c h s = Inr s'"
proof -
  from assms obtain e e2 where "COILS (client s) en = Some e" "IREGS (client s) h = Some e2"
    by (auto simp: ireg_len_def)
  then show ?thesis
    by (cases "en_counter c (Hal s)")
       (auto simp: counter_en_block_def bind_err_def get_coil_def set_ireg_def split: bool.split)
qed

lemma counter_en_set_cb_chain:
  assumes "counter_en_set_cb s0 = Inr s5"
  obtains s1 s2 s3 s4 where
    "counter_en_block COUNT1_EN_ADD 1 COUNT1_H_ADD s0 = Inr s1"
    "counter_en_block COUNT3_EN_ADD 3 COUNT3_H_ADD s1 = Inr s2"
    "counter_en_block COUNT5_EN_ADD 5 COUNT5_H_ADD s2 = Inr s3"
    "counter_en_block COUNT7_EN_ADD 7 COUNT7_H_ADD s3 = Inr s4"
    "counter_en_block COUNT9_EN_ADD 9 COUNT9_H_ADD s4 = Inr s5"
  using assms unfolding counter_en_set_cb_def bind_err_Inr by blast

lemma coil_val_cong: "COILS (client s') = COILS (client s) \<Longrightarrow> coil_val s' = coil_val s"
  by (simp add: coil_val_def fun_eq_iff)

lemma counter_en_set_cb_effect:
  assumes run: "counter_en_set_cb s = Inr s'" and c: "c \<in> set counter_channels"
  shows "COILS (client s') = COILS (client s)" and "ireg_len s' = ireg_len s"
    and "counter_of c (Hal s') =
           (if coil_val s (en_add_of c) = Some (Single 1)
            then (if counter_of c (Hal s) = None then Some 0 else counter_of c (Hal s))
            else None)"
    and "coil_val s (en_add_of c) = Some (Single 1) \<Longrightarrow> counter_of c (Hal s) = None \<Longrightarrow>
           ireg_val s' (h_add_of c) = Some (Multi [0, 0])"
proof -
  from run obtain s1 s2 s3 s4 where
    b1: "counter_en_block COUNT1_EN_ADD 1 COUNT1_H_ADD s = Inr s1" and
    b3: "counter_en_block COUNT3_EN_ADD 3 COUNT3_H_ADD s1 = Inr s2" and
    b5: "counter_en_block COUNT5_EN_ADD 5 COUNT5_H_ADD s2 = Inr s3" and
    b7: "counter_en_block COUNT7_EN_ADD 7 COUNT7_H_ADD s3 = Inr s4" and
    b9: "counter_en_block COUNT9_EN_ADD 9 COUNT9_H_ADD s4 = Inr s'"
    by (rule counter_en_set_cb_chain)
  note f1 = counter_en_block_Inr [OF b1] and f3 = counter_en_block_Inr [OF b3]
    and f5 = counter_en_block_Inr [OF b5] and f7 = counter_en_block_Inr [OF b7]
    and f9 = counter_en_block_Inr [OF b9]
  have coils: "COILS (client s1) = COILS (client s)" "COILS (client s2) = COILS (client s)"
    "COILS (client s3) = COILS (client s)" "COILS (client s4) = COILS (client s)"
    by (simp_all add: f1(1) f3(1) f5(1) f7(1))
  note cv = coils [THEN coil_val_cong]
  show "COILS (client s') = COILS (client s)" by (simp add: f9(1) coils)
  show "ireg_len s' = ireg_len s" by (simp add: f1(2) f3(2) f5(2) f7(2) f9(2))
  from c consider "c = 1" | "c = 3" | "c = 5" | "c = 7" | "c = 9"
    by (auto simp: counter_channels_def)
  note cs = this
  have k1: "counter_of d (Hal s1) = (if d = 1 then (if coil_val s COUNT1_EN_ADD = Some (Single 1)
              then (if counter_of 1 (Hal s) = None then Some 0 else counter_of 1 (Hal s)) else None)
            else counter_of d (Hal s))" for d
    by (simp add: f1(4) counter_of_en_counter counter_of_dis_counter counter_channels_def)
  have k3: "counter_of d (Hal s2) = (if d = 3 then (if coil_val s COUNT3_EN_ADD = Some (Single 1)
              then (if counter_of 3 (Hal s1) = None then Some 0 else counter_of 3 (Hal s1)) else None)
            else counter_of d (Hal s1))" for d
    by (simp add: f3(4) cv counter_of_en_counter counter_of_dis_counter counter_channels_def)
  have k5: "counter_of d (Hal s3) = (if d = 5 then (if coil_val s COUNT5_EN_ADD = Some (Single 1)
              then (if counter_of 5 (Hal s2) = None then Some 0 else counter_of 5 (Hal s2)) else None)
            else counter_of d (Hal s2))" for d
    by (simp add: f5(4) cv counter_of_en_counter counter_of_dis_counter counter_channels_def)
  have k7: "counter_of d (Hal s4) = (if d = 7 then (if coil_val s COUNT7_EN_ADD = Some (Single 1)
              then (if counter_of 7 (Hal s3) = None then Some 0 else counter_of 7 (Hal s3)) else None)
            else counter_of d (Hal s3))" for d
    by (simp add: f7(4) cv counter_of_en_counter counter_of_dis_counter counter_channels_def)
  have k9: "counter_of d (Hal s') = (if d = 9 then (if coil_val s COUNT9_EN_ADD = Some (Single 1)
              then (if counter_of 9 (Hal s4) = None then Some 0 else counter_of 9 (Hal s4)) else None)
            else counter_of d (Hal s4))" for d
    by (simp add: f9(4) cv counter_of_en_counter counter_of_dis_counter counter_channels_def)
  from cs show "counter_of c (Hal s') =
           (if coil_val s (en_add_of c) = Some (Single 1)
            then (if counter_of c (Hal s) = None then Some 0 else counter_of c (Hal s))
            else None)"
    by cases (simp_all add: k1 k3 k5 k7 k9 en_add_of_def)
  assume en: "coil_val s (en_add_of c) = Some (Single 1)" and off: "counter_of c (Hal s) = None"
  from cs show "ireg_val s' (h_add_of c) = Some (Multi [0, 0])"
  proof cases
    case 1
    with en off c have "ireg_val s1 COUNT1_H_ADD = Some (Multi [0, 0])"
      by (intro f1(5)) (simp_all add: en_add_of_def en_counter_fst)
    moreover have "ireg_val s' COUNT1_H_ADD = ireg_val s1 COUNT1_H_ADD"
      by (simp add: f3(3) f5(3) f7(3) f9(3) h_add_defs)
    ultimately show ?thesis using 1 by (simp add: h_add_of_def)
  next
    case 2
    with en off c k1 have "ireg_val s2 COUNT3_H_ADD = Some (Multi [0, 0])"
      by (intro f3(5)) (simp_all add: en_add_of_def en_counter_fst cv)
    moreover have "ireg_val s' COUNT3_H_ADD = ireg_val s2 COUNT3_H_ADD"
      by (simp add: f5(3) f7(3) f9(3) h_add_defs)
    ultimately show ?thesis using 2 by (simp add: h_add_of_def)
  next
    case 3
    with en off c k1 k3 have "ireg_val s3 COUNT5_H_ADD = Some (Multi [0, 0])"
      by (intro f5(5)) (simp_all add: en_add_of_def en_counter_fst cv)
    moreover have "ireg_val s' COUNT5_H_ADD = ireg_val s3 COUNT5_H_ADD"
      by (simp add: f7(3) f9(3) h_add_defs)
    ultimately show ?thesis using 3 by (simp add: h_add_of_def)
  next
    case 4
    with en off c k1 k3 k5 have "ireg_val s4 COUNT7_H_ADD = Some (Multi [0, 0])"
      by (intro f7(5)) (simp_all add: en_add_of_def en_counter_fst cv)
    moreover have "ireg_val s' COUNT7_H_ADD = ireg_val s4 COUNT7_H_ADD"
      by (simp add: f9(3) h_add_defs)
    ultimately show ?thesis using 4 by (simp add: h_add_of_def)
  next
    case 5
    with en off c k1 k3 k5 k7 have "ireg_val s' COUNT9_H_ADD = Some (Multi [0, 0])"
      by (intro f9(5)) (simp_all add: en_add_of_def en_counter_fst cv)
    then show ?thesis using 5 by (simp add: h_add_of_def)
  qed
qed

lemma counter_get_block_frame:
  assumes "counter_get_block en cnt h s = Inr s'"
  shows "COILS (client s') = COILS (client s)" and "ireg_len s' = ireg_len s"
  using assms
  by (cases rule: counter_get_block_cases; simp add: ireg_len_def fun_eq_iff)+

lemma counter_get_block_total:
  assumes "COILS (client s) en \<noteq> None"
    and "coil_val s en = Some (Single 1) \<Longrightarrow> cnt (Hal s) \<noteq> None \<and> ireg_len s h \<noteq> None"
  shows "\<exists>s'. counter_get_block en cnt h s = Inr s'"
proof -
  from assms(1) obtain e where e: "COILS (client s) en = Some e" by auto
  show ?thesis
  proof (cases "val e = Single 1")
    case True
    with e assms(2) obtain n e2 where "cnt (Hal s) = Some n" "IREGS (client s) h = Some e2"
      by (auto simp: coil_val_def ireg_len_def)
    with e True show ?thesis
      by (simp add: counter_get_block_def bind_err_def get_coil_def set_ireg_def)
  next
    case False
    with e show ?thesis by (simp add: counter_get_block_def bind_err_def get_coil_def)
  qed
qed

lemma counters_registered_D:
  assumes "counters_registered s"
  shows "COILS (client s) COUNT1_EN_ADD \<noteq> None" "COILS (client s) COUNT3_EN_ADD \<noteq> None"
    "COILS (client s) COUNT5_EN_ADD \<noteq> None" "COILS (client s) COUNT7_EN_ADD \<noteq> None"
    "COILS (client s) COUNT9_EN_ADD \<noteq> None"
    "ireg_len s COUNT1_H_ADD = Some 2" "ireg_len s COUNT3_H_ADD = Some 2"
    "ireg_len s COUNT5_H_ADD = Some 2" "ireg_len s COUNT7_H_ADD = Some 2"
    "ireg_len s COUNT9_H_ADD = Some 2"
  using assms
  by (auto simp: counters_registered_def counter_channels_def en_add_of_def h_add_of_def)

lemma counters_registered_cong:
  "COILS (client s') = COILS (client s) \<Longrightarrow> ireg_len s' = ireg_len s \<Longrightarrow>
     counters_registered s' = counters_registered s"
  by (simp add: counters_registered_def)

lemma counter_get_cb_total:
  assumes reg: "counters_registered s"
    and en: "\<And>c. c \<in> set counter_channels \<Longrightarrow> coil_val s (en_add_of c) = Some (Single 1) \<Longrightarrow>
               counter_of c (Hal s) \<noteq> None"
  shows "\<exists>s'. counter_get_cb s = Inr s'"
proof -
  note r = counters_registered_D [OF reg]
  have e1: "coil_val s COUNT1_EN_ADD = Some (Single 1) \<Longrightarrow> count1 (Hal s) \<noteq> None"
    using en [of 1] by (simp add: counter_channels_def en_add_of_def counter_of_def)
  have e3: "coil_val s COUNT3_EN_ADD = Some (Single 1) \<Longrightarrow> count3 (Hal s) \<noteq> None"
    using en [of 3] by (simp add: counter_channels_def en_add_of_def counter_of_def)
  have e5: "coil_val s COUNT5_EN_ADD = Some (Single 1) \<Longrightarrow> count5 (Hal s) \<noteq> None"
    using en [of 5] by (simp add: counter_channels_def en_add_of_def counter_of_def)
  have e7: "coil_val s COUNT7_EN_ADD = Some (Single 1) \<Longrightarrow> count7 (Hal s) \<noteq> None"
    using en [of 7] by (simp add: counter_channels_def en_add_of_def counter_of_def)
  have e9: "coil_val s COUNT9_EN_ADD = Some (Single 1) \<Longrightarrow> count9 (Hal s) \<noteq> None"
    using en [of 9] by (simp add: counter_channels_def en_add_of_def counter_of_def)
  obtain s1 where b1: "counter_get_block COUNT1_EN_ADD count1 COUNT1_H_ADD s = Inr s1"
    using counter_get_block_total [of s COUNT1_EN_ADD count1 COUNT1_H_ADD] r e1 by auto
  note g1 = counter_get_block_Inr(1,2) [OF b1] counter_get_block_frame [OF b1]
  obtain s2 where b3: "counter_get_block COUNT3_EN_ADD count3 COUNT3_H_ADD s1 = Inr s2"
    using counter_get_block_total [of s1 COUNT3_EN_ADD count3 COUNT3_H_ADD] r e3 g1 by auto
  note g3 = counter_get_block_Inr(1,2) [OF b3] counter_get_block_frame [OF b3]
  obtain s3 where b5: "counter_get_block COUNT5_EN_ADD count5 COUNT5_H_ADD s2 = Inr s3"
    using counter_get_block_total [of s2 COUNT5_EN_ADD count5 COUNT5_H_ADD] r e5 g1 g3 by auto
  note g5 = counter_get_block_Inr(1,2) [OF b5] counter_get_block_frame [OF b5]
  obtain s4 where b7: "counter_get_block COUNT7_EN_ADD count7 COUNT7_H_ADD s3 = Inr s4"
    using counter_get_block_total [of s3 COUNT7_EN_ADD count7 COUNT7_H_ADD] r e7 g1 g3 g5 by auto
  note g7 = counter_get_block_Inr(1,2) [OF b7] counter_get_block_frame [OF b7]
  obtain s5 where b9: "counter_get_block COUNT9_EN_ADD count9 COUNT9_H_ADD s4 = Inr s5"
    using counter_get_block_total [of s4 COUNT9_EN_ADD count9 COUNT9_H_ADD] r e9 g1 g3 g5 g7 by auto
  from b1 b3 b5 b7 b9 show ?thesis by (simp add: counter_get_cb_def bind_err_def)
qed

lemma counter_get_cb_frame:
  assumes "counter_get_cb s = Inr s'"
  shows "ireg_len s' = ireg_len s"
proof -
  from assms obtain s1 s2 s3 s4 where
    b1: "counter_get_block COUNT1_EN_ADD count1 COUNT1_H_ADD s = Inr s1" and
    b3: "counter_get_block COUNT3_EN_ADD count3 COUNT3_H_ADD s1 = Inr s2" and
    b5: "counter_get_block COUNT5_EN_ADD count5 COUNT5_H_ADD s2 = Inr s3" and
    b7: "counter_get_block COUNT7_EN_ADD count7 COUNT7_H_ADD s3 = Inr s4" and
    b9: "counter_get_block COUNT9_EN_ADD count9 COUNT9_H_ADD s4 = Inr s'"
    by (rule counter_get_cb_chain)
  show ?thesis
    by (simp add: counter_get_block_frame(2) [OF b1] counter_get_block_frame(2) [OF b3]
        counter_get_block_frame(2) [OF b5] counter_get_block_frame(2) [OF b7]
        counter_get_block_frame(2) [OF b9])
qed

lemma counter_en_set_cb_total:
  assumes reg: "counters_registered s"
  shows "\<exists>s'. counter_en_set_cb s = Inr s'"
proof -
  note r = counters_registered_D [OF reg]
  obtain s1 where b1: "counter_en_block COUNT1_EN_ADD 1 COUNT1_H_ADD s = Inr s1"
    using counter_en_block_total [of s COUNT1_EN_ADD COUNT1_H_ADD 1] r by auto
  note g1 = counter_en_block_Inr(1,2) [OF b1]
  obtain s2 where b3: "counter_en_block COUNT3_EN_ADD 3 COUNT3_H_ADD s1 = Inr s2"
    using counter_en_block_total [of s1 COUNT3_EN_ADD COUNT3_H_ADD 3] r g1 by auto
  note g3 = counter_en_block_Inr(1,2) [OF b3]
  obtain s3 where b5: "counter_en_block COUNT5_EN_ADD 5 COUNT5_H_ADD s2 = Inr s3"
    using counter_en_block_total [of s2 COUNT5_EN_ADD COUNT5_H_ADD 5] r g1 g3 by auto
  note g5 = counter_en_block_Inr(1,2) [OF b5]
  obtain s4 where b7: "counter_en_block COUNT7_EN_ADD 7 COUNT7_H_ADD s3 = Inr s4"
    using counter_en_block_total [of s3 COUNT7_EN_ADD COUNT7_H_ADD 7] r g1 g3 g5 by auto
  note g7 = counter_en_block_Inr(1,2) [OF b7]
  obtain s5 where b9: "counter_en_block COUNT9_EN_ADD 9 COUNT9_H_ADD s4 = Inr s5"
    using counter_en_block_total [of s4 COUNT9_EN_ADD COUNT9_H_ADD 9] r g1 g3 g5 g7 by auto
  from b1 b3 b5 b7 b9 show ?thesis by (simp add: counter_en_set_cb_def bind_err_def)
qed

text \<open>
  Claim C7. When a write sets the coil COUNT1\_EN (address 0x0300) to 1 in a state in
  which counter 1 is disabled (\<^verbatim>\<open>Hal.count1\<close> is \<^verbatim>\<open>None\<close>), the on-write hook
  \<open>counter_en_set_cb\<close> registered for that coil enables counter 1 and sets the counter
  value registers at 0x0400 to \<open>[0, 0]\<close>, and a ReadInputRegisters of address 0x0400 and
  count 2 that follows, which runs the on-read hook \<open>counter_get_cb\<close> registered for
  that entry before any edge has been counted, returns \<open>[0, 0]\<close>.
\<close>

theorem enable_counter1_then_read_zero:
  assumes reg: "counters_registered s" and off: "count1 (Hal s) = None"
  shows "\<exists>s1 s2.
           write_single_coil (Some counter_en_set_cb) COUNT1_EN_ADD 1 s = (Response (), s1)
         \<and> coil_val s1 COUNT1_EN_ADD = Some (Single 1)
         \<and> count1 (Hal s1) = Some 0
         \<and> ireg_val s1 COUNT1_H_ADD = Some (Multi [0, 0])
         \<and> read_input_registers (Some counter_get_cb) COUNT1_H_ADD 2 s1 = (Response [0, 0], s2)"
proof -
  have c1: "(1::int) \<in> set counter_channels" by (simp add: counter_channels_def)
  from reg c1 obtain e where e: "COILS (client s) COUNT1_EN_ADD = Some e" "len e = 1"
    by (auto simp: counters_registered_def en_add_of_def)
  define s0 where
    "s0 = s\<lparr>client := (client s)\<lparr>COILS := (COILS (client s))(COUNT1_EN_ADD \<mapsto> e\<lparr>val := Single 1\<rparr>)\<rparr>\<rparr>"
  have reg0: "counters_registered s0"
    using reg e by (auto simp: counters_registered_def s0_def ireg_len_def)
  have en0: "coil_val s0 (en_add_of 1) = Some (Single 1)"
    by (simp add: s0_def coil_val_def en_add_of_def)
  have off0: "counter_of 1 (Hal s0) = None"
    using off by (simp add: s0_def counter_of_def)
  obtain s1 where run1: "counter_en_set_cb s0 = Inr s1"
    using counter_en_set_cb_total [OF reg0] by blast
  note eff = counter_en_set_cb_effect [OF run1]
  have w: "write_single_coil (Some counter_en_set_cb) COUNT1_EN_ADD 1 s = (Response (), s1)"
    using e run1 by (simp add: write_single_coil_def s0_def [symmetric] Let_def)
  have cv: "coil_val s1 = coil_val s0" by (rule coil_val_cong) (rule eff(1) [OF c1])
  have coil1: "coil_val s1 COUNT1_EN_ADD = Some (Single 1)"
    using en0 by (simp add: cv en_add_of_def)
  have cnt1: "counter_of 1 (Hal s1) = Some 0"
    using eff(3) [OF c1] en0 off0 by simp
  have ireg1: "ireg_val s1 COUNT1_H_ADD = Some (Multi [0, 0])"
    using eff(4) [OF c1 en0 off0] by (simp add: h_add_of_def)
  have reg1: "counters_registered s1"
    using reg0 counters_registered_cong [OF eff(1) [OF c1] eff(2) [OF c1]] by simp
  have inv1: "counter_of c (Hal s1) \<noteq> None"
    if "c \<in> set counter_channels" "coil_val s1 (en_add_of c) = Some (Single 1)" for c
    using eff(3) [OF that(1)] that(2) by (simp add: cv)
  obtain s2 where run2: "counter_get_cb s1 = Inr s2"
    using counter_get_cb_total [OF reg1 inv1] by blast
  from counter_get_cb_stores [OF run2 c1] coil1 cnt1
  have ireg2: "ireg_val s2 COUNT1_H_ADD = Some (Multi [0, 0])"
    by (simp add: en_add_of_def h_add_of_def)
  from counters_registered_D(6) [OF reg1] obtain e1 where
    e1: "IREGS (client s1) COUNT1_H_ADD = Some e1" "len e1 = 2"
    by (auto simp: ireg_len_def)
  from ireg2 obtain e2 where e2: "IREGS (client s2) COUNT1_H_ADD = Some e2" "val e2 = Multi [0, 0]"
    by (auto simp: ireg_val_def)
  have r: "read_input_registers (Some counter_get_cb) COUNT1_H_ADD 2 s1 = (Response [0, 0], s2)"
    using e1 e2 run2 by (simp add: read_input_registers_def)
  from w coil1 cnt1 ireg1 r show ?thesis by (auto simp: counter_of_def)
qed

theorem enable_counter1_then_read_zero_witness:
  "counters_registered app_init \<and> count1 (Hal app_init) = None
   \<and> (\<exists>s1 s2.
        write_single_coil (Some counter_en_set_cb) COUNT1_EN_ADD 1 app_init = (Response (), s1)
      \<and> count1 (Hal s1) = Some 0
      \<and> read_input_registers (Some counter_get_cb) COUNT1_H_ADD 2 s1 = (Response [0, 0], s2))"
proof -
  have reg: "counters_registered app_init"
    by (simp add: counters_registered_def counter_channels_def en_add_of_def h_add_of_def
        ireg_len_def app_init_def register_definitions_def h_add_defs en_add_defs rst_add_defs
        DO0_ADD_def DO1_ADD_def DO2_ADD_def DO3_ADD_def ANV0_ADD_def ANV1_ADD_def ANA0_ADD_def
        ANA1_ADD_def)
  have off: "count1 (Hal app_init) = None" by (simp add: app_init_def hal_init_def)
  from enable_counter1_then_read_zero [OF reg off] reg off show ?thesis by blast
qed

section \<open>Properties of the TCP server\<close>

lemma get_request_empty:
  "length (socklist s) \<le> socknum s \<Longrightarrow>
     get_request Request link_status now unit_addr_list timeout s = (Raises IndexError, s)"
  by (simp add: get_request_def)

lemma bind_loop_socklist: "length (socklist (bind_loop n s)) = length (socklist s) + n"
  by (induction n arbitrary: s) (simp_all add: listening_socket_def)

lemma TCPServer_bind_empty:
  "max_connections < 1 \<Longrightarrow> socklist (TCPServer_bind ip port max_connections s) = []"
  by (simp add: TCPServer_bind_def Let_def)

lemma TCPServer_bind_cursor:
  "1 \<le> max_connections \<Longrightarrow>
     socknum (TCPServer_bind ip port max_connections s) = 0
     \<and> length (socklist (TCPServer_bind ip port max_connections s)) = nat max_connections"
  by (simp add: TCPServer_bind_def Let_def bind_loop_socklist)

text \<open>
  Claim C8. If \<open>get_request\<close> is called while the socket list is empty (\<open>bind\<close> was
  never called, or \<open>bind\<close> was called with \<open>max_connections < 1\<close>, which clears the pool
  and returns early), the call raises \<open>IndexError\<close> from indexing the empty list and
  leaves the server as it was: it neither returns no-request nor reaches the guard
  that raises the exception \<open>NotBound\<close>.
\<close>

theorem get_request_empty_pool_IndexError:
  "(socklist s = [] \<longrightarrow>
      get_request Request link_status now unit_addr_list timeout s = (Raises IndexError, s))
   \<and> socklist TCPServer_init = []
   \<and> (max_connections < 1 \<longrightarrow> socklist (TCPServer_bind ip port max_connections s0) = [])"
  by (simp add: get_request_empty TCPServer_bind_empty TCPServer_init_def)

theorem get_request_empty_pool_IndexError_witness:
  "get_request Request_unit True 0 None 0 TCPServer_init = (Raises IndexError, TCPServer_init)
   \<and> get_request Request_unit True 0 None 0 (TCPServer_bind None 502 0 TCPServer_init)
       = (Raises IndexError, TCPServer_bind None 502 0 TCPServer_init)"
  using
    get_request_empty_pool_IndexError
      [where s = TCPServer_init and Request = Request_unit and link_status = True and now = 0
         and unit_addr_list = None and timeout = 0 and max_connections = 0]
    get_request_empty_pool_IndexError
      [where s = "TCPServer_bind None 502 0 TCPServer_init" and Request = Request_unit
         and link_status = True and now = 0 and unit_addr_list = None and timeout = 0
         and max_connections = 0 and ip = None and port = 502 and s0 = TCPServer_init]
  by simp

lemma select_socket_simps:
  "socklist (select_socket s) = socklist s"
  "socks (select_socket s) = socks s"
  "next_sock (select_socket s) = next_sock s"
  "current_sock (select_socket s) = socklist s ! socknum s"
  "link_timestamp (select_socket s) = link_timestamp s"
  "req_tid (select_socket s) = req_tid s"
  "local_ip (select_socket s) = local_ip s"
  "local_port (select_socket s) = local_port s"
  by (simp_all add: select_socket_def)

lemma select_socket_socknum:
  "socknum s < length (socklist s) \<Longrightarrow>
     socknum (select_socket s) = Suc (socknum s) mod length (socklist s)"
  by (simp add: select_socket_def not_le le_Suc_eq mod_Suc) 

lemma TCPServer_send_frame:
  "socklist (snd (TCPServer_send p a s)) = socklist s"
  "socknum (snd (TCPServer_send p a s)) = socknum s"
  "next_sock (snd (TCPServer_send p a s)) = next_sock s"
  "current_sock (snd (TCPServer_send p a s)) = current_sock s"
  "req_tid (snd (TCPServer_send p a s)) = req_tid s"
  "link_timestamp (snd (TCPServer_send p a s)) = link_timestamp s"
  "Some i \<noteq> current_sock s \<Longrightarrow> socks (snd (TCPServer_send p a s)) i = socks s i"
  by (auto simp: TCPServer_send_def upd_sock_def split: option.split sum.split)

lemma decode_or_reject_snd:
  "snd (decode_or_reject R req pdu s) = s
   \<or> (\<exists>fc ec. snd (decode_or_reject R req pdu s)
          = snd (TCPServer_send (exception_response fc ec) (uint (hd req)) s))"
proof (cases "R pdu")
  case (ModbusException fc ec)
  then have "snd (decode_or_reject R req pdu s)
      = snd (TCPServer_send (exception_response fc ec) (uint (hd req)) s)"
    by (simp add: decode_or_reject_def send_exception_response_def
        split: prod.split outcome.split)
  then show ?thesis by blast
qed (simp_all add: decode_or_reject_def)

lemma decode_or_reject_frame:
  "socklist (snd (decode_or_reject R req pdu s)) = socklist s"
  "socknum (snd (decode_or_reject R req pdu s)) = socknum s"
  "next_sock (snd (decode_or_reject R req pdu s)) = next_sock s"
  "current_sock (snd (decode_or_reject R req pdu s)) = current_sock s"
  "req_tid (snd (decode_or_reject R req pdu s)) = req_tid s"
  "link_timestamp (snd (decode_or_reject R req pdu s)) = link_timestamp s"
  "Some i \<noteq> current_sock s \<Longrightarrow> socks (snd (decode_or_reject R req pdu s)) i = socks s i"
  using decode_or_reject_snd [of R req pdu s] by (auto simp: TCPServer_send_frame)

lemma read_request_snd:
  "\<exists>k tid pdu req. snd (read_request R u t c s) = s\<lparr>socks := (socks s)(c := k)\<rparr>
     \<or> snd (read_request R u t c s) = s\<lparr>socks := (socks s)(c := k), req_tid := Some tid\<rparr>
     \<or> snd (read_request R u t c s)
         = snd (decode_or_reject R req pdu (s\<lparr>socks := (socks s)(c := k), req_tid := Some tid\<rparr>))"
  by (auto simp: read_request_def upd_sock_def Let_def
      split: prod.split recv_event.split sum.split option.split list.split)

lemma read_request_frame:
  assumes "current_sock s = Some c"
  shows "socklist (snd (read_request R u t c s)) = socklist s"
  "socknum (snd (read_request R u t c s)) = socknum s"
  "next_sock (snd (read_request R u t c s)) = next_sock s"
  "current_sock (snd (read_request R u t c s)) = current_sock s"
  "link_timestamp (snd (read_request R u t c s)) = link_timestamp s"
  "i \<noteq> c \<Longrightarrow> socks (snd (read_request R u t c s)) i = socks s i"
  using read_request_snd [of R u t c s] assms
  by (auto simp: decode_or_reject_frame)

lemma get_request_cursor:
  assumes "socknum s < length (socklist s)"
  shows "socknum (snd (get_request R l n u t s)) = Suc (socknum s) mod length (socklist s)"
    and "length (socklist (snd (get_request R l n u t s))) = length (socklist s)"
    and "j \<noteq> socknum s \<Longrightarrow> socklist (snd (get_request R l n u t s)) ! j = socklist s ! j"
    and "Some i \<noteq> socklist s ! socknum s \<Longrightarrow> i \<noteq> next_sock s \<Longrightarrow>
           socks (snd (get_request R l n u t s)) i = socks s i"
proof -
  show "socknum (snd (get_request R l n u t s)) = Suc (socknum s) mod length (socklist s)"
    using assms select_socket_socknum [OF assms]
    by (cases "socklist s ! socknum s")
       (simp_all add: get_request_def Let_def select_socket_simps read_request_frame
         listening_socket_def upd_sock_def)
  show "length (socklist (snd (get_request R l n u t s))) = length (socklist s)"
    using assms
    by (cases "socklist s ! socknum s")
       (simp_all add: get_request_def Let_def select_socket_simps read_request_frame
         listening_socket_def upd_sock_def)
  show "socklist (snd (get_request R l n u t s)) ! j = socklist s ! j" if "j \<noteq> socknum s"
    using assms that
    by (cases "socklist s ! socknum s")
       (simp_all add: get_request_def Let_def select_socket_simps read_request_frame
         listening_socket_def upd_sock_def)
  show "socks (snd (get_request R l n u t s)) i = socks s i"
    if "Some i \<noteq> socklist s ! socknum s" "i \<noteq> next_sock s"
    using assms that
    by (cases "socklist s ! socknum s")
       (auto simp: get_request_def Let_def select_socket_simps read_request_frame
         listening_socket_def upd_sock_def)
qed

lemma rotate_image: "0 < n \<Longrightarrow> (\<lambda>k. (c + k) mod n) ` {0..<n} = {0..<(n::nat)}"
proof (intro set_eqI iffI)
  fix j assume n: "0 < n" and "j \<in> (\<lambda>k. (c + k) mod n) ` {0..<n}"
  then show "j \<in> {0..<n}" by auto
next
  fix j assume n: "0 < n" and "j \<in> {0..<n}"
  then have j: "j < n" by simp
  define k where "k = (j + n - c mod n) mod n"
  have "c mod n < n" using n by simp
  have "(c + k) mod n = (c mod n + (j + n - c mod n)) mod n"
    unfolding k_def by (simp add: mod_add_left_eq mod_add_right_eq)
  also have "c mod n + (j + n - c mod n) = j + n" using \<open>c mod n < n\<close> by simp
  also have "(j + n) mod n = j" using j by simp
  finally have "j = (c + k) mod n" by simp
  moreover have "k \<in> {0..<n}" using n by (simp add: k_def)
  ultimately show "j \<in> (\<lambda>k. (c + k) mod n) ` {0..<n}" by blast
qed

lemma polls_slots:
  "socknum s < length (socklist s) \<Longrightarrow>
     fst (polls R calls s) = map (\<lambda>k. (socknum s + k) mod length (socklist s)) [0..<length calls]"
proof (induction calls arbitrary: s)
  case Nil
  then show ?case by simp
next
  case (Cons x calls)
  obtain l n u t where x: "x = (l, n, u, t)" by (cases x)
  let ?s1 = "snd (get_request R l n u t s)"
  let ?len = "length (socklist s)"
  have s1: "socknum ?s1 = Suc (socknum s) mod ?len" "length (socklist ?s1) = ?len"
    using get_request_cursor(1,2) [OF Cons.prems, of R l n u t] by simp_all
  moreover from Cons.prems have "0 < ?len" by linarith
  ultimately have "socknum ?s1 < length (socklist ?s1)" by simp
  from Cons.IH [OF this]
  have "fst (polls R calls ?s1) = map (\<lambda>k. (Suc (socknum s) mod ?len + k) mod ?len) [0..<length calls]"
    by (simp add: s1)
  also have "\<dots> = map (\<lambda>k. (socknum s + Suc k) mod ?len) [0..<length calls]"
    by (simp add: mod_add_left_eq)
  also have "\<dots> = map (\<lambda>k. (socknum s + k) mod ?len) (map Suc [0..<length calls])"
    by (simp add: comp_def)
  finally have "fst (polls R calls ?s1)
      = map (\<lambda>k. (socknum s + k) mod ?len) (map Suc [0..<length calls])" .
  moreover have "fst (polls R (x # calls) s) = socknum s # fst (polls R calls ?s1)"
    by (simp add: x split: prod.split)
  moreover have "[0..<length (x # calls)] = 0 # map Suc [0..<length calls]"
    by (simp add: upt_conv_Cons map_Suc_upt del: upt_Suc)
  ultimately show ?case using Cons.prems by simp
qed

lemma polls_round:
  assumes "socknum s < length (socklist s)" and "length calls = length (socklist s)"
  shows "set (fst (polls R calls s)) = {0..<length (socklist s)}"
proof -
  from assms(1) have "0 < length (socklist s)" by linarith
  from rotate_image [OF this, of "socknum s"] show ?thesis
    by (simp add: polls_slots [OF assms(1)] assms(2))
qed

lemma upd_sock_simps:
  "socklist (upd_sock i f s) = socklist s"
  "socknum (upd_sock i f s) = socknum s"
  "next_sock (upd_sock i f s) = next_sock s"
  "current_sock (upd_sock i f s) = current_sock s"
  "req_tid (upd_sock i f s) = req_tid s"
  "link_timestamp (upd_sock i f s) = link_timestamp s"
  "local_ip (upd_sock i f s) = local_ip s"
  "local_port (upd_sock i f s) = local_port s"
  "socks (upd_sock i f s) = (socks s)(i := f (socks s i))"
  by (simp_all add: upd_sock_def)

lemma upd_sock_commute:
  "i \<noteq> c \<Longrightarrow> upd_sock c g (upd_sock i f s) = upd_sock i f (upd_sock c g s)"
  by (simp add: upd_sock_def fun_upd_twist)

lemma upd_sock_fields:
  "upd_sock i f (s\<lparr>req_tid := r\<rparr>) = (upd_sock i f s)\<lparr>req_tid := r\<rparr>"
  "upd_sock i f (s\<lparr>link_timestamp := ts\<rparr>) = (upd_sock i f s)\<lparr>link_timestamp := ts\<rparr>"
  "upd_sock i f (select_socket s) = select_socket (upd_sock i f s)"
  by (simp_all add: upd_sock_def select_socket_def)

lemma TCPServer_send_others:
  assumes "Some i \<noteq> current_sock s"
  shows "TCPServer_send p a (upd_sock i f s)
         = (fst (TCPServer_send p a s), upd_sock i f (snd (TCPServer_send p a s)))"
  using assms
  by (auto simp: TCPServer_send_def upd_sock_simps upd_sock_commute
      split: option.split sum.split)

lemma decode_or_reject_others:
  assumes "Some i \<noteq> current_sock s"
  shows "decode_or_reject R req pdu (upd_sock i f s)
         = (fst (decode_or_reject R req pdu s), upd_sock i f (snd (decode_or_reject R req pdu s)))"
  using assms
  by (cases "R pdu")
     (simp_all add: decode_or_reject_def send_exception_response_def TCPServer_send_others
       split: prod.split outcome.split)

lemma read_request_others:
  assumes "current_sock s = Some c" "i \<noteq> c"
  shows "read_request R u t c (upd_sock i f s)
         = (fst (read_request R u t c s), upd_sock i f (snd (read_request R u t c s)))"
  using assms
  by (simp add: read_request_def Let_def upd_sock_simps upd_sock_commute [of i c]
      upd_sock_fields [symmetric] decode_or_reject_others
      split: prod.split recv_event.split sum.split option.split list.split)

lemma get_request_others:
  assumes "socknum s < length (socklist s)" "Some i \<noteq> socklist s ! socknum s"
    "i \<noteq> next_sock s"
  shows "get_request R l n u t (upd_sock i f s)
         = (fst (get_request R l n u t s), upd_sock i f (snd (get_request R l n u t s)))"
proof (cases "socklist s ! socknum s")
  case None
  with assms show ?thesis
    by (simp add: get_request_def Let_def upd_sock_simps upd_sock_fields [symmetric]
        select_socket_simps)
next
  case (Some c)
  with assms have ic: "i \<noteq> c" by auto
  have cur: "current_sock ((select_socket s)\<lparr>link_timestamp := n\<rparr>) = Some c"
    by (simp add: select_socket_simps Some)
  show ?thesis
    using assms(1,3) Some ic read_request_others [OF cur ic, of R u t f]
    by (simp add: get_request_def Let_def upd_sock_simps upd_sock_fields [symmetric]
        select_socket_simps upd_sock_commute [of i c] listening_socket_def)
       (auto simp: upd_sock_def select_socket_def fun_upd_twist)
qed

text \<open>
  Claim C6. For every call of \<open>get_request\<close> on a pool whose cursor is within the list,
  the cursor \<open>socknum\<close> advances by one modulo the length of the pool, whose length
  stays the same, and exactly one socket is inspected, the one at the cursor: changing
  any other existing socket before the call changes neither what the call returns
  nor what it does, and the call leaves that other socket as it is. So consecutive
  calls visit the slots in round-robin order, and as many calls as the pool has slots
  visit all of them.
\<close>

theorem get_request_round_robin:
  assumes "socknum s < length (socklist s)"
  shows "socknum (snd (get_request R l n u t s)) = (socknum s + 1) mod length (socklist s)
       \<and> length (socklist (snd (get_request R l n u t s))) = length (socklist s)
       \<and> (\<forall>i f. Some i \<noteq> socklist s ! socknum s \<and> i \<noteq> next_sock s \<longrightarrow>
             get_request R l n u t (upd_sock i f s)
             = (fst (get_request R l n u t s), upd_sock i f (snd (get_request R l n u t s))))
       \<and> fst (polls R calls s)
           = map (\<lambda>k. (socknum s + k) mod length (socklist s)) [0..<length calls]
       \<and> (length calls = length (socklist s) \<longrightarrow>
             set (fst (polls R calls s)) = {0..<length (socklist s)})"
proof -
  have others: "\<forall>i f. Some i \<noteq> socklist s ! socknum s \<and> i \<noteq> next_sock s \<longrightarrow>
             get_request R l n u t (upd_sock i f s)
             = (fst (get_request R l n u t s), upd_sock i f (snd (get_request R l n u t s)))"
    using get_request_others [OF assms] by blast
  show ?thesis
    using get_request_cursor(1,2) [OF assms, of R l n u t] others
      polls_slots [OF assms, of R calls] polls_round [OF assms, of calls R]
    by simp
qed

lemma pool3_cursor: "socknum pool3 = 0 \<and> length (socklist pool3) = 3"
  using TCPServer_bind_cursor [of 3 None 502 TCPServer_init] by (simp add: pool3_def)

theorem get_request_round_robin_witness:
  "socknum pool3 < length (socklist pool3)
   \<and> socknum (snd (get_request Request_unit True 1 None 0 pool3)) = 1
   \<and> fst (polls Request_unit [(True, 1, None, 0), (False, 2, None, 0), (True, 3, None, 0)] pool3)
       = [0, 1, 2]"
proof -
  have c: "socknum pool3 < length (socklist pool3)" using pool3_cursor by simp
  have "[0..<3] = [0, 1, 2::nat]" by (simp add: upt_rec)
  with get_request_round_robin [OF c, of Request_unit True 1 None 0
      "[(True, 1, None, 0), (False, 2, None, 0), (True, 3, None, 0)]"] c pool3_cursor
  show ?thesis by simp
qed

lemma uint_byte_bounds: "0 \<le> uint (a::byte)" "uint (a::byte) \<le> 255"
  using uint_lt2p [of a] by simp_all

lemma be16_bounds: "0 \<le> be16 a b" "be16 a b \<le> 65535"
  using uint_byte_bounds [of a] uint_byte_bounds [of b] by (simp_all add: be16_def)

lemma pack_H_be16: "pack_H (be16 a b) = Inr [a, b]"
proof -
  have "(uint a * 256 + uint b) div 256 = uint a" "(uint a * 256 + uint b) mod 256 = uint b"
    using uint_byte_bounds [of b] by simp_all
  then show ?thesis using be16_bounds [of a b] by (simp add: pack_H_def be16_def)
qed

lemma pack_B_uint: "pack_B (uint (a::byte)) = Inr [a]"
  using uint_byte_bounds [of a] by (simp add: pack_B_def)

lemma unpack_HHH_wrong_length: "length xs \<noteq> 6 \<Longrightarrow> unpack_HHH xs = Inl StructError"
  by (auto simp: unpack_HHH_def split: list.split)

lemma unpack_HHH_take:
  "unpack_HHH (take 6 req) =
     (if 6 \<le> length req
      then Inr (be16 (req ! 0) (req ! 1), be16 (req ! 2) (req ! 3), be16 (req ! 4) (req ! 5))
      else Inl StructError)"
proof (cases "6 \<le> length req")
  case True
  then obtain a b c d e f rest where "req = a # b # c # d # e # f # rest"
    by (auto simp: eval_nat_numeral Suc_le_length_iff)
  then show ?thesis by (simp add: unpack_HHH_def)
next
  case False
  then have "length (take 6 req) \<noteq> 6" by simp
  from unpack_HHH_wrong_length [OF this] False show ?thesis by simp
qed

lemma get_request_connected:
  assumes "socknum s < length (socklist s)" "socklist s ! socknum s = Some c"
    "\<not> status_raises (socks s c)" "sock_connected (socks s c)"
  shows "get_request R True now u t s
         = read_request R u t c ((select_socket s)\<lparr>link_timestamp := now\<rparr>)"
  using assms by (simp add: get_request_def Let_def select_socket_simps)

lemma read_request_nonzero_pid:
  assumes rx: "rx (socks s c) = Data bs # rest" and req: "req = take 260 bs"
    and len: "4 \<le> length req" and pid: "be16 (req ! 2) (req ! 3) \<noteq> 0"
  shows "fst (read_request R u t c s) = Returns None"
    and "tx (socks (snd (read_request R u t c s)) i) = tx (socks s i)"
  using assms
  by (auto simp: read_request_def recv_def Let_def upd_sock_def unpack_HHH_take
      MBAP_HDR_LENGTH_def)

text \<open>
  Claim C5. For every frame \<open>req\<close> received from the connected socket at the cursor
  whose MBAP protocol id field (bytes 2 and 3) is not zero, \<open>get_request\<close> returns
  \<open>None\<close>, raises nothing and sends nothing: no socket has a byte string more in \<open>tx\<close>.
\<close>

theorem nonzero_protocol_id_discarded:
  assumes "socknum s < length (socklist s)" and "socklist s ! socknum s = Some c"
    and "\<not> status_raises (socks s c)" and "sock_connected (socks s c)"
    and "rx (socks s c) = Data bs # rest" and "req = take 260 bs"
    and "4 \<le> length req" and "be16 (req ! 2) (req ! 3) \<noteq> 0"
  shows "fst (get_request R True now u t s) = Returns None
         \<and> (\<forall>i. tx (socks (snd (get_request R True now u t s)) i) = tx (socks s i))"
proof -
  let ?s = "(select_socket s)\<lparr>link_timestamp := now\<rparr>"
  have rx: "rx (socks ?s c) = Data bs # rest" using assms(5) by (simp add: select_socket_simps)
  from read_request_nonzero_pid [OF rx assms(6,7,8), of R u t]
  show ?thesis
    by (simp add: get_request_connected [OF assms(1-4)] select_socket_simps)
qed

lemma pack_H_0: "pack_H 0 = Inr [0, 0]"
  by (simp add: pack_H_def)

lemma pack_H_3: "pack_H 3 = Inr [0, 3]"
  by (simp add: pack_H_def)

lemma pack_H_in_range:
  "0 \<le> n \<Longrightarrow> n \<le> 65535 \<Longrightarrow>
     pack_H n = Inr [word_of_int (n div 256), word_of_int (n mod 256)]"
  by (simp add: pack_H_def)

lemma pack_adu_be16:
  assumes "0 \<le> slave_addr" "slave_addr \<le> 255" "length pdu < 65535"
  shows "\<exists>len_hi len_lo. pack_adu (be16 a b) slave_addr pdu
           = Inr ([a, b, 0, 0, len_hi, len_lo, word_of_int slave_addr] @ pdu)"
proof -
  have "pack_H (int (length pdu) + 1)
        = Inr [word_of_int ((int (length pdu) + 1) div 256),
               word_of_int ((int (length pdu) + 1) mod 256)]"
    using assms(3) by (intro pack_H_in_range) simp_all
  with assms(1,2) show ?thesis
    by (simp add: pack_adu_def bind_err_def pack_H_be16 pack_H_0 pack_B_def)
qed

lemma pack_adu_Inr_tid:
  assumes "pack_adu (be16 a b) slave_addr pdu = Inr adu"
  shows "take 2 adu = [a, b]"
  using assms
  by (auto simp: pack_adu_def bind_err_def pack_H_be16 split: sum.split_asm)

lemma pack_adu_exception:
  "pack_adu (be16 a b) (uint (u::byte)) (exception_response fc ec)
     = Inr [a, b, 0, 0, 0, 3, u, fc OR 0x80, ec]"
  by (simp add: pack_adu_def bind_err_def pack_H_be16 pack_H_0 pack_H_3 pack_B_uint
      exception_response_def)

lemma read_request_rejects:
  assumes cur: "current_sock s = Some c"
    and rx: "rx (socks s c) = Data bs # rest" and req: "req = take 260 bs"
    and len: "6 \<le> length req" and pid: "be16 (req ! 2) (req ! 3) = 0"
    and pdu: "req_uid_and_pdu = take (nat (be16 (req ! 4) (req ! 5))) (drop 6 req)"
    and unit: "case u of None \<Rightarrow> True
               | Some l \<Rightarrow> req_uid_and_pdu \<noteq> [] \<and> uint (hd req_uid_and_pdu) \<in> set l"
    and dec: "R req_uid_and_pdu = ModbusException fc ec"
  shows "fst (read_request R u t c s) = Returns None"
    and "tx (socks (snd (read_request R u t c s)) c)
         = tx (socks s c) @ [[req ! 0, req ! 1, 0, 0, 0, 3, req ! 0, fc OR 0x80, ec]]"
proof -
  from len have ne: "req \<noteq> []" by auto
  then have hd: "hd req = req ! 0" by (simp add: hd_conv_nth)
  let ?k = "(socks s c)\<lparr>sock_timeout := t,
              rx := (if length bs \<le> 260 then rest else Data (drop 260 bs) # rest)\<rparr>"
  let ?s3 = "s\<lparr>socks := (socks s)(c := ?k), req_tid := Some (be16 (req ! 0) (req ! 1))\<rparr>"
  have d: "decode_or_reject R req req_uid_and_pdu ?s3
           = (Returns None, upd_sock c
                (send [req ! 0, req ! 1, 0, 0, 0, 3, req ! 0, fc OR 0x80, ec]) ?s3)"
    using dec cur
    by (simp add: decode_or_reject_def send_exception_response_def TCPServer_send_def hd
        pack_adu_exception)
  have r: "read_request R u t c s = decode_or_reject R req req_uid_and_pdu ?s3"
  proof (cases u)
    case None
    with rx len pid ne show ?thesis
      by (simp add: read_request_def recv_def Let_def upd_sock_def unpack_HHH_take
          MBAP_HDR_LENGTH_def req [symmetric] pdu [symmetric])
  next
    case (Some l)
    with unit obtain x xs where xs: "req_uid_and_pdu = x # xs" "uint x \<in> set l"
      by (cases req_uid_and_pdu) auto
    with pdu have "take (nat (be16 (req ! 4) (req ! 5))) (drop 6 req) = x # xs" by simp
    with rx len pid ne Some xs show ?thesis
      by (simp add: read_request_def recv_def Let_def upd_sock_def unpack_HHH_take
          MBAP_HDR_LENGTH_def req [symmetric])
  qed
  show "fst (read_request R u t c s) = Returns None" by (simp only: r d fst_conv)
  show "tx (socks (snd (read_request R u t c s)) c)
         = tx (socks s c) @ [[req ! 0, req ! 1, 0, 0, 0, 3, req ! 0, fc OR 0x80, ec]]"
    unfolding r d by (simp add: upd_sock_def send_def)
qed

text \<open>
  Claim C4. For every received frame whose PDU fails to decode (the constructor
  \<open>Request\<close> raises \<open>ModbusException\<close> with a function code and an exception code),
  \<open>get_request\<close> sends one exception response, with the transaction id of the frame,
  through the socket the frame came from, and returns \<open>None\<close>; no other existing socket
  changes, and the cycle of the server loop ends there for every way of executing
  requests, with the register table and the HAL as they were: no register is read or
  written and no hook runs for that frame.
\<close>

theorem undecodable_frame_rejected:
  assumes "socknum s < length (socklist s)" and "socklist s ! socknum s = Some c"
    and "\<not> status_raises (socks s c)" and "sock_connected (socks s c)"
    and "rx (socks s c) = Data bs # rest" and "req = take 260 bs"
    and "6 \<le> length req" and "be16 (req ! 2) (req ! 3) = 0"
    and "req_uid_and_pdu = take (nat (be16 (req ! 4) (req ! 5))) (drop 6 req)"
    and "case u of None \<Rightarrow> True
         | Some l \<Rightarrow> req_uid_and_pdu \<noteq> [] \<and> uint (hd req_uid_and_pdu) \<in> set l"
    and "R req_uid_and_pdu = ModbusException fc ec"
  shows "fst (get_request R True now u t s) = Returns None
       \<and> tx (socks (snd (get_request R True now u t s)) c)
           = tx (socks s c) @ [[req ! 0, req ! 1, 0, 0, 0, 3, req ! 0, fc OR 0x80, ec]]
       \<and> (\<forall>i. i \<noteq> c \<and> i \<noteq> next_sock s \<longrightarrow>
             socks (snd (get_request R True now u t s)) i = socks s i)
       \<and> (\<forall>execute a. process execute R True now u t (s, a)
             = (None, snd (get_request R True now u t s), a))"
proof -
  let ?s = "(select_socket s)\<lparr>link_timestamp := now\<rparr>"
  have cur: "current_sock ?s = Some c" using assms(2) by (simp add: select_socket_simps)
  have rx: "rx (socks ?s c) = Data bs # rest" using assms(5) by (simp add: select_socket_simps)
  note g = get_request_connected [OF assms(1-4), of R now u t]
  note r = read_request_rejects
    [where s = ?s and c = c and bs = bs and rest = rest and req = req
       and req_uid_and_pdu = req_uid_and_pdu and u = u and R = R and fc = fc and ec = ec
       and t = t, OF cur rx assms(6-11)]
  have 1: "fst (get_request R True now u t s) = Returns None" by (simp add: g r)
  have 2: "tx (socks (snd (get_request R True now u t s)) c)
           = tx (socks s c) @ [[req ! 0, req ! 1, 0, 0, 0, 3, req ! 0, fc OR 0x80, ec]]"
    by (simp add: g r select_socket_simps)
  have 3: "\<forall>i. i \<noteq> c \<and> i \<noteq> next_sock s \<longrightarrow>
             socks (snd (get_request R True now u t s)) i = socks s i"
    using get_request_cursor(4) [OF assms(1), of _ R True now u t] assms(2) by auto
  have 4: "\<forall>execute a. process execute R True now u t (s, a)
             = (None, snd (get_request R True now u t s), a)"
    using 1 by (auto simp: process_def split: prod.split outcome.split option.split)
  from 1 2 3 4 show ?thesis by blast
qed

lemma decode_or_reject_SomeD:
  "decode_or_reject R req pdu s = (Returns (Some r), s1) \<Longrightarrow> s1 = s"
  by (cases "R pdu")
     (auto simp: decode_or_reject_def split: prod.split_asm outcome.split_asm)

lemma read_request_SomeD:
  assumes "read_request R u t c s = (Returns (Some r), s1)"
  shows "\<exists>bs rest. rx (socks s c) = Data bs # rest \<and> 6 \<le> length bs
           \<and> req_tid s1 = Some (be16 (bs ! 0) (bs ! 1)) \<and> current_sock s1 = current_sock s"
proof (cases "rx (socks s c)")
  case Nil
  with assms show ?thesis by (simp add: read_request_def recv_def upd_sock_def Let_def)
next
  case (Cons ev rest)
  show ?thesis
  proof (cases ev)
    case (Data bs)
    let ?req = "take 260 bs"
    let ?k = "(socks s c)\<lparr>sock_timeout := t,
                rx := (if length bs \<le> 260 then rest else Data (drop 260 bs) # rest)\<rparr>"
    let ?s3 = "s\<lparr>socks := (socks s)(c := ?k), req_tid := Some (be16 (?req ! 0) (?req ! 1))\<rparr>"
    have len: "6 \<le> length ?req"
    proof (rule ccontr)
      assume "\<not> 6 \<le> length ?req"
      then have "unpack_HHH (take (MBAP_HDR_LENGTH - 1) ?req) = Inl StructError"
        by (intro unpack_HHH_wrong_length) (simp add: MBAP_HDR_LENGTH_def)
      with assms Cons Data show False
        by (simp add: read_request_def recv_def upd_sock_def Let_def MBAP_HDR_LENGTH_def
            split: if_split_asm)
    qed
    have "s1 = ?s3"
      using assms Cons Data len
      by (auto simp: read_request_def recv_def upd_sock_def Let_def unpack_HHH_take
          MBAP_HDR_LENGTH_def split: if_split_asm option.split_asm list.split_asm
          dest!: decode_or_reject_SomeD)
    with len Cons Data show ?thesis by simp
  next
    case RecvOSError
    with assms Cons show ?thesis by (simp add: read_request_def recv_def upd_sock_def Let_def)
  next
    case RecvError
    with assms Cons show ?thesis by (simp add: read_request_def recv_def upd_sock_def Let_def)
  qed
qed

lemma get_request_SomeD:
  assumes "get_request R l n u t s = (Returns (Some r), s1)"
  shows "\<exists>c. socknum s < length (socklist s) \<and> socklist s ! socknum s = Some c
           \<and> read_request R u t c ((select_socket s)\<lparr>link_timestamp := n\<rparr>)
               = (Returns (Some r), s1)"
  using assms
  by (auto simp: get_request_def Let_def select_socket_simps listening_socket_def
      split: if_split_asm option.split_asm)

lemma TCPServer_send_ReturnsD:
  assumes "TCPServer_send pdu a s1 = (Returns (), s2)"
    and "req_tid s1 = Some (be16 x y)" and "current_sock s1 = Some c"
  shows "\<exists>adu. s2 = upd_sock c (send adu) s1 \<and> take 2 adu = [x, y]"
  using assms
  by (auto simp: TCPServer_send_def split: sum.split_asm dest: pack_adu_Inr_tid)

lemma TCPServer_send_Returns:
  assumes "req_tid s1 = Some (be16 x y)" and "current_sock s1 = Some c"
    and "0 \<le> a" "a \<le> 255" "length pdu < 65535"
  shows "fst (TCPServer_send pdu a s1) = Returns ()"
  using assms pack_adu_be16 [OF assms(3,4,5), of x y]
  by (auto simp: TCPServer_send_def)

text \<open>
  Claim C2. For every request that \<open>get_request\<close> returns, the frame was received from
  the socket \<open>c\<close> at the cursor, and every response then sent for it with
  \<open>send_response\<close> or \<open>send_exception_response\<close> is one byte string appended to what was
  sent through that same socket \<open>c\<close>, whose first two bytes, the transaction id of the
  MBAP header, are the first two bytes of the request frame, for every pool and every
  cursor. The server is otherwise unchanged, so this holds for each further response
  too. A response whose slave address fits a byte and whose PDU fits the length field
  is sent.
\<close>

theorem response_echoes_transaction_id:
  assumes "get_request R l n u t s = (Returns (Some r), s1)"
  shows "\<exists>c bs rest. socknum s < length (socklist s) \<and> socklist s ! socknum s = Some c
       \<and> rx (socks s c) = Data bs # rest \<and> 2 \<le> length bs
       \<and> (\<forall>response a args s2. send_response response a args s1 = (Returns (), s2) \<longrightarrow>
             (\<exists>adu. s2 = upd_sock c (send adu) s1 \<and> take 2 adu = take 2 bs))
       \<and> (\<forall>a fc ec s2. send_exception_response a fc ec s1 = (Returns (), s2) \<longrightarrow>
             (\<exists>adu. s2 = upd_sock c (send adu) s1 \<and> take 2 adu = take 2 bs))
       \<and> (\<forall>response a args pdu.
             response args = Inr pdu \<and> 0 \<le> a \<and> a \<le> 255 \<and> length pdu < 65535 \<longrightarrow>
             fst (send_response response a args s1) = Returns ())
       \<and> (\<forall>a fc ec. 0 \<le> a \<and> a \<le> 255 \<longrightarrow>
             fst (send_exception_response a fc ec s1) = Returns ())"
proof -
  from get_request_SomeD [OF assms] obtain c where
    slot: "socknum s < length (socklist s)" "socklist s ! socknum s = Some c" and
    rd: "read_request R u t c ((select_socket s)\<lparr>link_timestamp := n\<rparr>) = (Returns (Some r), s1)"
    by blast
  from read_request_SomeD [OF rd] obtain bs rest where
    rx: "rx (socks s c) = Data bs # rest" and len: "6 \<le> length bs" and
    tid: "req_tid s1 = Some (be16 (bs ! 0) (bs ! 1))" and cur: "current_sock s1 = Some c"
    using slot by (auto simp: select_socket_simps)
  from len have t2: "take 2 bs = [bs ! 0, bs ! 1]"
    by (cases bs; cases "tl bs") auto
  have a: "\<forall>response a args s2. send_response response a args s1 = (Returns (), s2) \<longrightarrow>
             (\<exists>adu. s2 = upd_sock c (send adu) s1 \<and> take 2 adu = take 2 bs)"
    using TCPServer_send_ReturnsD [OF _ tid cur]
    by (auto simp: send_response_def t2 split: sum.split_asm)
  have b: "\<forall>a fc ec s2. send_exception_response a fc ec s1 = (Returns (), s2) \<longrightarrow>
             (\<exists>adu. s2 = upd_sock c (send adu) s1 \<and> take 2 adu = take 2 bs)"
    using TCPServer_send_ReturnsD [OF _ tid cur]
    by (auto simp: send_exception_response_def t2)
  have c: "\<forall>response a args pdu.
             response args = Inr pdu \<and> 0 \<le> a \<and> a \<le> 255 \<and> length pdu < 65535 \<longrightarrow>
             fst (send_response response a args s1) = Returns ()"
    using TCPServer_send_Returns [OF tid cur] by (auto simp: send_response_def)
  have d: "\<forall>a fc ec. 0 \<le> a \<and> a \<le> 255 \<longrightarrow>
             fst (send_exception_response a fc ec s1) = Returns ()"
    using TCPServer_send_Returns [OF tid cur]
    by (auto simp: send_exception_response_def exception_response_def)
  from slot rx len a b c d show ?thesis by (intro exI [of _ c] exI [of _ bs] exI [of _ rest]) simp
qed

lemma pool1_eq:
  "pool1 = \<lparr>socks = (\<lambda>_. new_sock)(0 := new_sock\<lparr>bound_to := Some (None, 502), listening := True\<rparr>),
            next_sock = 1, socklist = [Some 0], socknum = 0, current_sock = None,
            local_ip = None, local_port = 502, is_bound = True, link_timestamp = 0,
            req_tid = None\<rparr>"
  by (simp add: pool1_def TCPServer_bind_def TCPServer_init_def Let_def listening_socket_def)

lemma get_request_link_down:
  assumes "socknum s < length (socklist s)" and "socklist s ! socknum s = Some c"
  shows "get_request R False now u t s =
           (Returns None,
            if 5 \<le> now - link_timestamp s \<and> \<not> socket_closed (socks s c)
            then upd_sock c close (select_socket s) else select_socket s)"
  using assms by (simp add: get_request_def Let_def select_socket_simps)

lemma get_request_recreates:
  assumes "socknum s < length (socklist s)" and "socklist s ! socknum s = Some c"
    and "socket_closed (socks s c)" and "\<not> sock_connected (socks s c)"
  shows "get_request R True now u t s =
           (Returns None,
            (select_socket s)
            \<lparr>link_timestamp := now,
              socks := (socks s)(next_sock s :=
                new_sock\<lparr>bound_to := Some (local_ip s, local_port s), listening := True\<rparr>),
              next_sock := Suc (next_sock s),
              current_sock := Some (next_sock s),
              socklist := (socklist s)[socknum s := Some (next_sock s)]\<rparr>)"
  using assms
  by (simp add: get_request_def Let_def select_socket_simps listening_socket_def)

text \<open>
  Claim C3, as amended. For every call of \<open>get_request\<close> while the link is down: if less
  than 5 seconds have passed since the last poll with the link up, the call returns
  no request and every socket stays as it is; if 5 seconds or more have passed, the
  call returns no request and the inspected socket is closed. A later poll of that
  slot made while the link is up, the socket being closed and not connected, returns
  no request and puts a fresh socket, bound and listening, in that slot of the pool.
\<close>

theorem link_down_closes_after_5s:
  assumes "socknum s < length (socklist s)" and "socklist s ! socknum s = Some c"
  shows "(now - link_timestamp s < 5 \<longrightarrow>
            fst (get_request R False now u t s) = Returns None
          \<and> socks (snd (get_request R False now u t s)) = socks s)
       \<and> (5 \<le> now - link_timestamp s \<longrightarrow>
            fst (get_request R False now u t s) = Returns None
          \<and> socket_closed (socks (snd (get_request R False now u t s)) c)
          \<and> (\<not> socket_closed (socks s c) \<longrightarrow>
               socks (snd (get_request R False now u t s)) c = close (socks s c)))
       \<and> (socket_closed (socks s c) \<and> \<not> sock_connected (socks s c) \<longrightarrow>
            fst (get_request R True now u t s) = Returns None
          \<and> socklist (snd (get_request R True now u t s))
              = (socklist s)[socknum s := Some (next_sock s)]
          \<and> socks (snd (get_request R True now u t s)) (next_sock s)
              = new_sock\<lparr>bound_to := Some (local_ip s, local_port s), listening := True\<rparr>
          \<and> (\<forall>i. i \<noteq> next_sock s \<longrightarrow>
                socks (snd (get_request R True now u t s)) i = socks s i))"
  using get_request_recreates [OF assms, of R now u t]
  by (auto simp: get_request_link_down [OF assms] select_socket_simps upd_sock_def close_def)

text \<open>
  Claim C3 as stated fails: in a pool of one socket, after the poll that closes the
  socket (link down for 10 seconds), the next poll of that slot, made while the link
  is still down, does not recreate it. The pool still holds the same closed socket
  and no socket has been created.
\<close>

theorem link_down_no_recreate_counterexample:
  "socket_closed (socks (snd (get_request Request_unit False 10 None 0 pool1)) 0)
   \<and> socklist (snd (get_request Request_unit False 11 None 0
                 (snd (get_request Request_unit False 10 None 0 pool1)))) = socklist pool1
   \<and> next_sock (snd (get_request Request_unit False 11 None 0
                 (snd (get_request Request_unit False 10 None 0 pool1)))) = next_sock pool1
   \<and> socket_closed (socks (snd (get_request Request_unit False 11 None 0
                 (snd (get_request Request_unit False 10 None 0 pool1)))) 0)"
  by (simp add: pool1_eq get_request_def Let_def select_socket_def upd_sock_def close_def
      new_sock_def)

lemma pool1_fields:
  "socknum pool1 = 0" "socklist pool1 = [Some 0]" "next_sock pool1 = 1"
  "link_timestamp pool1 = 0" "local_ip pool1 = None" "local_port pool1 = 502"
  "socks pool1 0 = new_sock\<lparr>bound_to := Some (None, 502), listening := True\<rparr>"
  by (simp_all add: pool1_eq)

theorem link_down_closes_after_5s_witness:
  "socknum pool1 < length (socklist pool1) \<and> socklist pool1 ! socknum pool1 = Some 0
   \<and> \<not> socket_closed (socks (snd (get_request Request_unit False 4.9 None 0 pool1)) 0)
   \<and> socket_closed (socks (snd (get_request Request_unit False 5 None 0 pool1)) 0)
   \<and> socklist (snd (get_request Request_unit True 6 None 0
                 (snd (get_request Request_unit False 5 None 0 pool1)))) = [Some 1]
   \<and> listening (socks (snd (get_request Request_unit True 6 None 0
                 (snd (get_request Request_unit False 5 None 0 pool1)))) 1)"
proof -
  let ?s1 = "snd (get_request Request_unit False 5 None 0 pool1)"
  have a: "socknum pool1 < length (socklist pool1)" "socklist pool1 ! socknum pool1 = Some 0"
    by (simp_all add: pool1_fields)
  have g: "?s1 = upd_sock 0 close (select_socket pool1)"
    by (simp add: get_request_link_down [OF a] pool1_fields new_sock_def)
  have s1: "socknum ?s1 < length (socklist ?s1)" "socklist ?s1 ! socknum ?s1 = Some 0"
    "socket_closed (socks ?s1 0)" "\<not> sock_connected (socks ?s1 0)" "next_sock ?s1 = 1"
    "socklist ?s1 = [Some 0]" "socknum ?s1 = 0"
    unfolding g
    by (simp_all add: upd_sock_simps select_socket_simps select_socket_def pool1_fields
        close_def)
  from link_down_closes_after_5s [OF a, of "4.9" Request_unit None 0]
  have 1: "\<not> socket_closed (socks (snd (get_request Request_unit False 4.9 None 0 pool1)) 0)"
    by (simp add: pool1_fields new_sock_def)
  from link_down_closes_after_5s [OF a, of 5 Request_unit None 0]
  have 2: "socket_closed (socks ?s1 0)" by (simp add: pool1_fields)
  from link_down_closes_after_5s [OF s1(1,2), of 6 Request_unit None 0]
  have 3: "socklist (snd (get_request Request_unit True 6 None 0 ?s1)) = [Some 1]"
    "listening (socks (snd (get_request Request_unit True 6 None 0 ?s1)) 1)"
    using s1(3-7) by simp_all
  from a 1 2 3 show ?thesis by blast
qed

lemma client_sends_pool1:
  "socknum (client_sends bs pool1) = 0" "socklist (client_sends bs pool1) = [Some 0]"
  "next_sock (client_sends bs pool1) = 1"
  "\<not> status_raises (socks (client_sends bs pool1) 0)"
  "sock_connected (socks (client_sends bs pool1) 0)"
  "rx (socks (client_sends bs pool1) 0) = Data bs # []"
  "tx (socks (client_sends bs pool1) 0) = []"
  by (simp_all add: client_sends_def upd_sock_simps pool1_fields new_sock_def)

theorem nonzero_protocol_id_discarded_witness:
  "fst (get_request Request_unit True 1 None 0 (client_sends frame_bad_pid pool1)) = Returns None
   \<and> tx (socks (snd (get_request Request_unit True 1 None 0
                       (client_sends frame_bad_pid pool1))) 0) = []"
proof -
  let ?s = "client_sends frame_bad_pid pool1"
  have h: "socknum ?s < length (socklist ?s)" "socklist ?s ! socknum ?s = Some 0"
    "\<not> status_raises (socks ?s 0)" "sock_connected (socks ?s 0)"
    "rx (socks ?s 0) = Data frame_bad_pid # []" "frame_bad_pid = take 260 frame_bad_pid"
    "4 \<le> length frame_bad_pid" "be16 (frame_bad_pid ! 2) (frame_bad_pid ! 3) \<noteq> 0"
    by (simp_all add: client_sends_pool1 frame_bad_pid_def be16_def)
  from nonzero_protocol_id_discarded [OF h, of Request_unit 1 None 0]
  show ?thesis by (simp add: client_sends_pool1)
qed

theorem undecodable_frame_rejected_witness:
  "fst (get_request Request_illegal True 1 (Some [0xff]) 0 (client_sends frame_read pool1))
     = Returns None
   \<and> tx (socks (snd (get_request Request_illegal True 1 (Some [0xff]) 0
                       (client_sends frame_read pool1))) 0)
       = [[0x12, 0x34, 0, 0, 0, 3, 0x12, 0x84, 1]]"
proof -
  let ?s = "client_sends frame_read pool1"
  have h: "socknum ?s < length (socklist ?s)" "socklist ?s ! socknum ?s = Some 0"
    "\<not> status_raises (socks ?s 0)" "sock_connected (socks ?s 0)"
    "rx (socks ?s 0) = Data frame_read # []" "frame_read = take 260 frame_read"
    "6 \<le> length frame_read" "be16 (frame_read ! 2) (frame_read ! 3) = 0"
    "[0xff, 0x04, 0x04, 0x00, 0x00, 0x02]
       = take (nat (be16 (frame_read ! 4) (frame_read ! 5))) (drop 6 frame_read)"
    "case Some [0xff] of None \<Rightarrow> True
     | Some l \<Rightarrow> [0xff, 0x04, 0x04, 0x00, 0x00, 0x02 :: byte] \<noteq> []
         \<and> uint (hd [0xff, 0x04, 0x04, 0x00, 0x00, 0x02 :: byte]) \<in> set l"
    "Request_illegal [0xff, 0x04, 0x04, 0x00, 0x00, 0x02] = ModbusException 0x04 1"
    by (simp_all add: client_sends_pool1 frame_read_def be16_def Request_illegal_def)
  from undecodable_frame_rejected
    [where R = Request_illegal and s = ?s and c = 0 and bs = frame_read and rest = "[]"
       and req = frame_read and req_uid_and_pdu = "[0xff, 0x04, 0x04, 0x00, 0x00, 0x02]"
       and u = "Some [0xff]" and fc = 4 and ec = 1 and now = 1 and t = 0, OF h]
  show ?thesis by (simp add: client_sends_pool1 frame_read_def)
qed

lemma read_request_accepts:
  assumes cur: "current_sock s = Some c"
    and rx: "rx (socks s c) = Data bs # rest" and req: "req = take 260 bs"
    and len: "6 \<le> length req" and pid: "be16 (req ! 2) (req ! 3) = 0"
    and pdu: "req_uid_and_pdu = take (nat (be16 (req ! 4) (req ! 5))) (drop 6 req)"
    and unit: "case u of None \<Rightarrow> True
               | Some l \<Rightarrow> req_uid_and_pdu \<noteq> [] \<and> uint (hd req_uid_and_pdu) \<in> set l"
    and dec: "R req_uid_and_pdu = Decoded r"
  shows "fst (read_request R u t c s) = Returns (Some r)"
proof -
  from len have ne: "req \<noteq> []" by auto
  let ?k = "(socks s c)\<lparr>sock_timeout := t,
              rx := (if length bs \<le> 260 then rest else Data (drop 260 bs) # rest)\<rparr>"
  let ?s3 = "s\<lparr>socks := (socks s)(c := ?k), req_tid := Some (be16 (req ! 0) (req ! 1))\<rparr>"
  have d: "decode_or_reject R req req_uid_and_pdu ?s3 = (Returns (Some r), ?s3)"
    using dec by (simp add: decode_or_reject_def)
  have r: "read_request R u t c s = decode_or_reject R req req_uid_and_pdu ?s3"
  proof (cases u)
    case None
    with rx len pid ne show ?thesis
      by (simp add: read_request_def recv_def Let_def upd_sock_def unpack_HHH_take
          MBAP_HDR_LENGTH_def req [symmetric] pdu [symmetric])
  next
    case (Some l)
    with unit obtain x xs where xs: "req_uid_and_pdu = x # xs" "uint x \<in> set l"
      by (cases req_uid_and_pdu) auto
    with pdu have "take (nat (be16 (req ! 4) (req ! 5))) (drop 6 req) = x # xs" by simp
    with rx len pid ne Some xs show ?thesis
      by (simp add: read_request_def recv_def Let_def upd_sock_def unpack_HHH_take
          MBAP_HDR_LENGTH_def req [symmetric])
  qed
  show ?thesis by (simp only: r d fst_conv)
qed

theorem response_echoes_transaction_id_witness:
  "fst (get_request Request_unit True 1 None 0 (client_sends frame_read pool1))
     = Returns (Some ())
   \<and> fst (send_exception_response 255 4 2
            (snd (get_request Request_unit True 1 None 0 (client_sends frame_read pool1))))
       = Returns ()
   \<and> (\<exists>adu. snd (send_exception_response 255 4 2
                  (snd (get_request Request_unit True 1 None 0 (client_sends frame_read pool1))))
              = upd_sock 0 (send adu)
                  (snd (get_request Request_unit True 1 None 0 (client_sends frame_read pool1)))
            \<and> take 2 adu = [0x12, 0x34])"
proof -
  let ?s = "client_sends frame_read pool1"
  let ?g = "get_request Request_unit True 1 None 0 ?s"
  have h: "socknum ?s < length (socklist ?s)" "socklist ?s ! socknum ?s = Some 0"
    "\<not> status_raises (socks ?s 0)" "sock_connected (socks ?s 0)"
    by (simp_all add: client_sends_pool1)
  have cur: "current_sock ((select_socket ?s)\<lparr>link_timestamp := 1\<rparr>) = Some 0"
    by (simp add: select_socket_simps client_sends_pool1)
  have rx: "rx (socks ((select_socket ?s)\<lparr>link_timestamp := 1\<rparr>) 0) = Data frame_read # []"
    by (simp add: select_socket_simps client_sends_pool1)
  have fr: "frame_read = take 260 frame_read" "6 \<le> length frame_read"
    "be16 (frame_read ! 2) (frame_read ! 3) = 0"
    "[0xff, 0x04, 0x04, 0x00, 0x00, 0x02]
       = take (nat (be16 (frame_read ! 4) (frame_read ! 5))) (drop 6 frame_read)"
    by (simp_all add: frame_read_def be16_def)
  have f: "fst ?g = Returns (Some ())"
    unfolding get_request_connected [OF h]
    by (rule read_request_accepts
        [where bs = frame_read and rest = "[]" and req = frame_read
           and req_uid_and_pdu = "[0xff, 0x04, 0x04, 0x00, 0x00, 0x02]", OF cur rx fr])
       (simp_all add: Request_unit_def)
  then have got: "?g = (Returns (Some ()), snd ?g)" by (simp add: prod_eq_iff)
  from response_echoes_transaction_id [OF got] obtain c bs rest where
    all: "socknum ?s < length (socklist ?s) \<and> socklist ?s ! socknum ?s = Some c
       \<and> rx (socks ?s c) = Data bs # rest \<and> 2 \<le> length bs
       \<and> (\<forall>response a args s2. send_response response a args (snd ?g) = (Returns (), s2) \<longrightarrow>
             (\<exists>adu. s2 = upd_sock c (send adu) (snd ?g) \<and> take 2 adu = take 2 bs))
       \<and> (\<forall>a fc ec s2. send_exception_response a fc ec (snd ?g) = (Returns (), s2) \<longrightarrow>
             (\<exists>adu. s2 = upd_sock c (send adu) (snd ?g) \<and> take 2 adu = take 2 bs))
       \<and> (\<forall>response a args pdu.
             response args = Inr pdu \<and> 0 \<le> a \<and> a \<le> 255 \<and> length pdu < 65535 \<longrightarrow>
             fst (send_response response a args (snd ?g)) = Returns ())
       \<and> (\<forall>a fc ec. 0 \<le> a \<and> a \<le> 255 \<longrightarrow>
             fst (send_exception_response a fc ec (snd ?g)) = Returns ())"
    by (elim exE) (erule that)
  from all have c: "socklist ?s ! socknum ?s = Some c" by (elim conjE)
  from all have bs: "rx (socks ?s c) = Data bs # rest" by (elim conjE)
  from all have
    ex: "\<forall>a fc ec s2. send_exception_response a fc ec (snd ?g) = (Returns (), s2) \<longrightarrow>
           (\<exists>adu. s2 = upd_sock c (send adu) (snd ?g) \<and> take 2 adu = take 2 bs)"
    by (elim conjE)
  from all have
    ok: "\<forall>a fc ec. 0 \<le> a \<and> a \<le> 255 \<longrightarrow>
           fst (send_exception_response a fc ec (snd ?g)) = Returns ()"
    by (elim conjE)
  from c have c0: "c = 0" by (simp add: client_sends_pool1)
  with bs have bs0: "bs = frame_read" by (simp add: client_sends_pool1)
  have "(0::int) \<le> 255 \<and> (255::int) \<le> 255" by simp
  with ok [rule_format, of 255 4 2]
  have r: "fst (send_exception_response 255 4 2 (snd ?g)) = Returns ()" by (elim conjE) simp
  then have e: "send_exception_response 255 4 2 (snd ?g)
      = (Returns (), snd (send_exception_response 255 4 2 (snd ?g)))"
    by (simp add: prod_eq_iff)
  from ex [rule_format, OF e] obtain adu where
    adu: "snd (send_exception_response 255 4 2 (snd ?g)) = upd_sock c (send adu) (snd ?g)"
      "take 2 adu = take 2 bs"
    by blast
  have t2: "take 2 frame_read = [0x12, 0x34]" by (simp add: frame_read_def)
  from adu c0 bs0 t2 have "snd (send_exception_response 255 4 2 (snd ?g))
        = upd_sock 0 (send adu) (snd ?g) \<and> take 2 adu = [0x12, 0x34]"
    by simp
  then have "\<exists>adu. snd (send_exception_response 255 4 2 (snd ?g))
        = upd_sock 0 (send adu) (snd ?g) \<and> take 2 adu = [0x12, 0x34]" ..
  with f r show ?thesis by (intro conjI)
qed

end
